theory Spec2Isabelle
  imports Main "HOL-Library.Word" "HOL-Library.AList"
begin

unbundle bit_operations_syntax

section \<open>Folder synchronisation: the file-system model\<close>

text \<open>
  The program (\<^verbatim>\<open>main.py\<close>) mirrors a source directory onto a replica directory.
  Every function of the program works on two disjoint trees, the one below the source
  path and the one below the replica path, and reaches them only through
  \<^verbatim>\<open>os.path.exists\<close>, \<^verbatim>\<open>os.path.isdir\<close>, \<^verbatim>\<open>os.path.isfile\<close>,
  \<^verbatim>\<open>os.listdir\<close>, \<^verbatim>\<open>os.mkdir\<close>, \<^verbatim>\<open>os.remove\<close>, \<^verbatim>\<open>os.rmdir\<close> and
  \<^verbatim>\<open>open\<close>. The model passes the tree found at a path (\<open>None\<close> when nothing exists
  there) together with the path; the path itself only appears in log records.

  A node carries the attributes that decide whether an operation of the operating system
  succeeds or raises \<^verbatim>\<open>OSError\<close>:
  \<^item> a file: its bytes, whether it may be opened for reading, whether it may be opened
    for writing, and the offset of a byte whose read raises (a device error), if any;
  \<^item> a directory: its entries in listing order, whether it may be listed, and whether
    entries may be created in it and removed from it.
  Symbolic links and special files are outside the model, and nobody else changes the
  trees during a pass.
\<close>

type_synonym byte = "8 word"
type_synonym name = string
type_synonym path = "name list"

datatype node =
    File (content: "byte list") (readable: bool) (writable: bool) (fault: "nat option")
  | Dir (entries: "(name \<times> node) list") (listable: bool) (modifiable: bool)

datatype exn = OSError | KeyError | ValueError | IndexError

subsection \<open>The logger\<close>

text \<open>
  \<^verbatim>\<open>config.py\<close> sets up one logger with the levels INFO and ERROR in use. A log record
  is the level and the message; one constructor per message of the source.
\<close>

datatype level = INFO | ERROR

datatype message =
    Source_folder_does_not_exist
  | Synchronizing_folder path
  | Failed_to_create_replica_folder
  | Source_folder_path_is_not_a_folder
  | Replica_folder_path_is_not_a_folder
  | Hash_match name
  | Synchronizing_file path
  | Failed_to_synchronize path path
  | Failed_to_open_file path
  | Failed_to_calculate_file_hash
  | Deleting_file path
  | Failed_to_delete path
  | Deleting_folder path
  | Failed_to_delete_folder path
  | Sync_interval_set int string
  | Synchronizing_folders path path
  | Commands_read "string list"
  | Invalid_number_of_arguments
  | Usage
  | Source_same_as_replica
  | Bad_sync_interval_format
  | Invalid_logger_extension

type_synonym log = "(level \<times> message) list"

subsection \<open>Operations of the operating system\<close>

definition path_join :: "path \<Rightarrow> name \<Rightarrow> path" where
  "path_join p item = p @ [item]"

definition path_exists :: "node option \<Rightarrow> bool" where
  "path_exists x = (x \<noteq> None)"

fun isdir :: "node option \<Rightarrow> bool" where
  "isdir (Some (Dir es l m)) = True"
| "isdir _ = False"

fun isfile :: "node option \<Rightarrow> bool" where
  "isfile (Some (File c r w flt)) = True"
| "isfile _ = False"

text \<open>\<^verbatim>\<open>os.listdir\<close> raises on a path that is no directory or may not be listed.\<close>

fun listdir :: "node option \<Rightarrow> exn + name list" where
  "listdir (Some (Dir es l m)) = (if l then Inr (map fst es) else Inl OSError)"
| "listdir _ = Inl OSError"

text \<open>
  \<^verbatim>\<open>os.mkdir\<close>: the first argument says whether the parent directory lets entries be
  created. A new directory is empty and grants everything to its owner.
\<close>

fun mkdir :: "bool \<Rightarrow> node option \<Rightarrow> exn + node" where
  "mkdir parent_ok None = (if parent_ok then Inr (Dir [] True True) else Inl OSError)"
| "mkdir parent_ok (Some x) = Inl OSError"

text \<open>\<^verbatim>\<open>os.remove\<close> and \<^verbatim>\<open>os.rmdir\<close> return the node left at the path.\<close>

fun remove :: "bool \<Rightarrow> node option \<Rightarrow> exn + node option" where
  "remove parent_ok (Some (File c r w flt)) = (if parent_ok then Inr None else Inl OSError)"
| "remove parent_ok _ = Inl OSError"

fun rmdir :: "bool \<Rightarrow> node option \<Rightarrow> exn + node option" where
  "rmdir parent_ok (Some (Dir es l m)) =
     (if parent_ok \<and> es = [] then Inr None else Inl OSError)"
| "rmdir parent_ok _ = Inl OSError"

text \<open>\<^verbatim>\<open>open(path, 'rb')\<close>: the file to read from, or the error.\<close>

fun open_rb :: "node option \<Rightarrow> exn + node" where
  "open_rb (Some (File c r w flt)) = (if r then Inr (File c r w flt) else Inl OSError)"
| "open_rb _ = Inl OSError"

text \<open>
  \<^verbatim>\<open>open(path, 'wb')\<close> truncates an existing file that may be written, creates an empty
  file where none exists and the parent allows it, and raises otherwise (also on a
  directory). Truncation drops every stored byte, the faulty one with them.
\<close>

fun open_wb :: "bool \<Rightarrow> node option \<Rightarrow> exn + node" where
  "open_wb parent_ok None = (if parent_ok then Inr (File [] True True None) else Inl OSError)"
| "open_wb parent_ok (Some (File c r w flt)) =
     (if w then Inr (File [] r w None) else Inl OSError)"
| "open_wb parent_ok (Some (Dir es l m)) = Inl OSError"

text \<open>
  \<^verbatim>\<open>file.read(n)\<close> at position \<open>pos\<close>: at most \<open>n\<close> bytes, empty at the end of the
  file; it raises when the bytes asked for include the faulty one.
\<close>

definition read_at :: "node \<Rightarrow> nat \<Rightarrow> nat \<Rightarrow> exn + byte list" where
  "read_at f pos n =
     (let chunk = take n (drop pos (content f)) in
      case fault f of
        None \<Rightarrow> Inr chunk
      | Some k \<Rightarrow> if pos \<le> k \<and> k < pos + length chunk then Inl OSError else Inr chunk)"

text \<open>\<^verbatim>\<open>file.read()\<close> of a file just opened: everything up to the end.\<close>

definition read_all :: "node \<Rightarrow> exn + byte list" where
  "read_all f = read_at f 0 (length (content f))"

text \<open>\<^verbatim>\<open>file.write(data)\<close> on a file just opened for writing.\<close>

fun write_file :: "node \<Rightarrow> byte list \<Rightarrow> node" where
  "write_file (File c r w flt) data = File (c @ data) r w flt"
| "write_file (Dir es l m) data = Dir es l m"

section \<open>The hasher\<close>

text \<open>
  \<^verbatim>\<open>hashlib.md5\<close> is the library's: the digest function is a parameter \<open>md5\<close> from the
  bytes fed so far to the 128-bit digest. An \<^verbatim>\<open>md5\<close> object is the bytes fed to it
  (\<^verbatim>\<open>update(a); update(b)\<close> is \<^verbatim>\<open>update(a + b)\<close>), and \<^verbatim>\<open>hexdigest\<close> writes the digest
  as 32 lowercase hexadecimal digits.
\<close>

type_synonym digest = "byte list \<Rightarrow> 128 word"

definition CHUNK_SIZE :: nat where
  "CHUNK_SIZE = 4096"

definition hex_digit :: "nat \<Rightarrow> char" where
  "hex_digit n = ''0123456789abcdef'' ! (n mod 16)"

definition hexdigest :: "128 word \<Rightarrow> string" where
  "hexdigest d = map (\<lambda>i. hex_digit (unat (drop_bit (4 * (31 - i)) d AND 15))) [0..<32]"

text \<open>
  \<^verbatim>\<open>while chunk := file.read(CHUNK_SIZE): file_hash.update(chunk)\<close>, with the position
  in the file and the bytes fed so far.
\<close>

function hash_loop :: "node \<Rightarrow> nat \<Rightarrow> byte list \<Rightarrow> exn + byte list" where
  "hash_loop f pos fed =
     (case read_at f pos CHUNK_SIZE of
        Inl e \<Rightarrow> Inl e
      | Inr chunk \<Rightarrow>
          if chunk = [] then Inr fed
          else hash_loop f (pos + length chunk) (fed @ chunk))"
  by pat_completeness auto
termination
  by (relation "measure (\<lambda>(f, pos, fed). length (content f) - pos)")
     (auto simp: read_at_def Let_def split: option.splits if_splits)

declare hash_loop.simps [simp del]

text \<open>
  \<^verbatim>\<open>calculate_file_hash\<close>: both handlers log and fall off the end of the function, so
  the caller gets \<^verbatim>\<open>None\<close>. Every operation of the \<^verbatim>\<open>try\<close> block raises \<^verbatim>\<open>OSError\<close>
  only, so the second handler is never taken.
\<close>

definition calculate_file_hash :: "digest \<Rightarrow> path \<Rightarrow> node option \<Rightarrow> string option \<times> log" where
  "calculate_file_hash md5 filepath x =
     (case open_rb x of
        Inl e \<Rightarrow> (None, [(ERROR, Failed_to_open_file filepath)])
      | Inr file \<Rightarrow>
          (case hash_loop file 0 [] of
             Inl e \<Rightarrow> (None, [(ERROR, Failed_to_open_file filepath)])
           | Inr fed \<Rightarrow> (Some (hexdigest (md5 fed)), [])))"

section \<open>The reconciler\<close>

subsection \<open>Deleting an item of the replica\<close>

text \<open>
  \<^verbatim>\<open>delete_item\<close> returns the exception that left it, if any, the node left at
  \<open>itempath\<close> and the log records written. \<open>parent_ok\<close> says whether the directory
  holding the item lets entries be removed. \<^verbatim>\<open>os.remove\<close> and \<^verbatim>\<open>os.rmdir\<close> are
  inside \<^verbatim>\<open>try\<close> blocks; \<^verbatim>\<open>os.listdir\<close> is not, so its \<^verbatim>\<open>OSError\<close> leaves the
  function. \<open>delete_children\<close> is the \<^verbatim>\<open>for\<close> loop over the listing and returns the
  entries that are left.
\<close>

function delete_item :: "path \<Rightarrow> bool \<Rightarrow> node \<Rightarrow> exn option \<times> node option \<times> log"
  and delete_children ::
    "path \<Rightarrow> bool \<Rightarrow> (name \<times> node) list \<Rightarrow> exn option \<times> (name \<times> node) list \<times> log"
where
  "delete_item itempath parent_ok (File c r w flt) =
     (case remove parent_ok (Some (File c r w flt)) of
        Inr x \<Rightarrow> (None, x, [(INFO, Deleting_file itempath)])
      | Inl e \<Rightarrow> (None, Some (File c r w flt), [(ERROR, Failed_to_delete itempath)]))"
| "delete_item itempath parent_ok (Dir es l m) =
     (case listdir (Some (Dir es l m)) of
        Inl e \<Rightarrow> (Some e, Some (Dir es l m), [])
      | Inr items \<Rightarrow>
          (case delete_children itempath m es of
             (Some e, es', lg) \<Rightarrow> (Some e, Some (Dir es' l m), lg)
           | (None, es', lg) \<Rightarrow>
               (case rmdir parent_ok (Some (Dir es' l m)) of
                  Inr x \<Rightarrow> (None, x, lg @ [(INFO, Deleting_folder itempath)])
                | Inl e \<Rightarrow>
                    (None, Some (Dir es' l m),
                     lg @ [(ERROR, Failed_to_delete_folder itempath)]))))"
| "delete_children itempath ok [] = (None, [], [])"
| "delete_children itempath ok ((item, c) # rest) =
     (case delete_item (path_join itempath item) ok c of
        (Some e, c', lg) \<Rightarrow>
          (Some e, (case c' of None \<Rightarrow> rest | Some n \<Rightarrow> (item, n) # rest), lg)
      | (None, c', lg) \<Rightarrow>
          (case delete_children itempath ok rest of
             (e, rest', lg') \<Rightarrow>
               (e, (case c' of None \<Rightarrow> rest' | Some n \<Rightarrow> (item, n) # rest'), lg @ lg')))"
  by pat_completeness auto
termination
  by (relation "measure (\<lambda>x. case x of
            Inl (p, ok, n) \<Rightarrow> size n
          | Inr (p, ok, es) \<Rightarrow> size_list (size_prod (\<lambda>_. 0) size) es)")
     auto

subsection \<open>One file of the source\<close>

text \<open>
  The copy of lines 180 to 183: open the source, open the replica (which truncates or
  creates it), read the whole source, write it. The result is the exception raised, if
  any, and the node left at the replica path.
\<close>

definition copy_file :: "bool \<Rightarrow> node \<Rightarrow> node option \<Rightarrow> (exn + unit) \<times> node option" where
  "copy_file parent_ok s r =
     (case open_rb (Some s) of
        Inl e \<Rightarrow> (Inl e, r)
      | Inr source_file \<Rightarrow>
          (case open_wb parent_ok r of
             Inl e \<Rightarrow> (Inl e, r)
           | Inr replica_file \<Rightarrow>
               (case read_all source_file of
                  Inl e \<Rightarrow> (Inl e, Some replica_file)
                | Inr data \<Rightarrow> (Inr (), Some (write_file replica_file data)))))"

text \<open>
  The \<^verbatim>\<open>else\<close> branch of the first loop (lines 170 to 192) for the source file \<open>s\<close>
  named \<open>item\<close> and whatever is at the replica path: the node left there and the log.
\<close>

definition sync_file ::
  "digest \<Rightarrow> path \<Rightarrow> path \<Rightarrow> name \<Rightarrow> bool \<Rightarrow> node \<Rightarrow> node option \<Rightarrow> node option \<times> log" where
  "sync_file md5 source_item_path replica_item_path item parent_ok s r =
     (let (matched, lg) =
        (if path_exists r then
           (let (source_hash, lg1) = calculate_file_hash md5 source_item_path (Some s);
                (replica_hash, lg2) = calculate_file_hash md5 replica_item_path r
            in if source_hash = replica_hash
               then (True, lg1 @ lg2 @ [(INFO, Hash_match item)])
               else (False, lg1 @ lg2))
         else (False, []))
      in if matched then (r, lg)
         else (case copy_file parent_ok s r of
                 (Inr u, r') \<Rightarrow> (r', lg @ [(INFO, Synchronizing_file replica_item_path)])
               | (Inl e, r') \<Rightarrow>
                   (r', lg @ [(ERROR, Failed_to_synchronize source_item_path replica_item_path)])))"

subsection \<open>One pass\<close>

text \<open>What a call left at the path \<open>item\<close> of a directory is stored in its entries.\<close>

definition store :: "name \<Rightarrow> node option \<Rightarrow> (name \<times> node) list \<Rightarrow> (name \<times> node) list" where
  "store item x es = (case x of None \<Rightarrow> AList.delete item es | Some n \<Rightarrow> AList.update item n es)"

text \<open>Lines 147 to 153: the replica is created when nothing exists at its path.\<close>

definition ensure_replica :: "path \<Rightarrow> bool \<Rightarrow> node option \<Rightarrow> exn + node option \<times> log" where
  "ensure_replica replica parent_ok rep =
     (if \<not> path_exists rep then
        (case mkdir parent_ok rep of
           Inl e \<Rightarrow> Inl e
         | Inr d \<Rightarrow> Inr (Some d, [(INFO, Synchronizing_folder replica)]))
      else Inr (rep, []))"

text \<open>
  The second loop (lines 194 to 198) over the listing of the replica: an entry with
  nothing at the same name in the source is deleted. \<open>ses\<close> are the entries of the
  source directory, \<open>ok\<close> is whether the replica directory lets entries be removed.
\<close>

fun delete_orphans ::
  "path \<Rightarrow> (name \<times> node) list \<Rightarrow> bool \<Rightarrow> (name \<times> node) list
     \<Rightarrow> exn option \<times> (name \<times> node) list \<times> log" where
  "delete_orphans replica ses ok [] = (None, [], [])"
| "delete_orphans replica ses ok ((item, c) # rest) =
     (if \<not> path_exists (map_of ses item) then
        (case delete_item (path_join replica item) ok c of
           (Some e, c', lg) \<Rightarrow>
             (Some e, (case c' of None \<Rightarrow> rest | Some n \<Rightarrow> (item, n) # rest), lg)
         | (None, c', lg) \<Rightarrow>
             (case delete_orphans replica ses ok rest of
                (e, rest', lg') \<Rightarrow>
                  (e, (case c' of None \<Rightarrow> rest' | Some n \<Rightarrow> (item, n) # rest'), lg @ lg')))
      else
        (case delete_orphans replica ses ok rest of
           (e, rest', lg') \<Rightarrow> (e, (item, c) # rest', lg')))"

text \<open>
  \<^verbatim>\<open>synchronize_folders\<close>: the result is the value returned (\<open>Inr\<close>) or the exception
  that left the call (\<open>Inl\<close>), the node left at the replica path, and the log records
  written. \<open>parent_ok\<close> says whether the replica may be created where it is missing.
  \<open>forward_pass\<close> is the first loop (lines 163 to 192) over the entries of the source
  directory; its state is the entries of the replica directory. The value returned by
  the recursive call is dropped, its exception is not caught.
\<close>

function synchronize_folders ::
    "digest \<Rightarrow> path \<Rightarrow> path \<Rightarrow> bool \<Rightarrow> node option \<Rightarrow> node option
       \<Rightarrow> (exn + bool) \<times> node option \<times> log"
  and forward_pass ::
    "digest \<Rightarrow> path \<Rightarrow> path \<Rightarrow> bool \<Rightarrow> (name \<times> node) list \<Rightarrow> (name \<times> node) list
       \<Rightarrow> exn option \<times> (name \<times> node) list \<times> log"
where
  "synchronize_folders md5 source replica parent_ok None rep =
     (Inr False, rep, [(ERROR, Source_folder_does_not_exist)])"
| "synchronize_folders md5 source replica parent_ok (Some (File c r w flt)) rep =
     (case ensure_replica replica parent_ok rep of
        Inl e \<Rightarrow> (Inr False, rep, [(ERROR, Failed_to_create_replica_folder)])
      | Inr (rep1, lg1) \<Rightarrow>
          (Inr False, rep1, lg1 @ [(ERROR, Source_folder_path_is_not_a_folder)]))"
| "synchronize_folders md5 source replica parent_ok (Some (Dir ses sl sm)) rep =
     (case ensure_replica replica parent_ok rep of
        Inl e \<Rightarrow> (Inr False, rep, [(ERROR, Failed_to_create_replica_folder)])
      | Inr (rep1, lg1) \<Rightarrow>
          (case rep1 of
             Some (Dir res rl rm) \<Rightarrow>
               (case listdir (Some (Dir ses sl sm)) of
                  Inl e \<Rightarrow> (Inl e, rep1, lg1)
                | Inr items \<Rightarrow>
                    (case forward_pass md5 source replica rm ses res of
                       (Some e, res', lg2) \<Rightarrow> (Inl e, Some (Dir res' rl rm), lg1 @ lg2)
                     | (None, res', lg2) \<Rightarrow>
                         (case listdir (Some (Dir res' rl rm)) of
                            Inl e \<Rightarrow> (Inl e, Some (Dir res' rl rm), lg1 @ lg2)
                          | Inr ritems \<Rightarrow>
                              (case delete_orphans replica ses rm res' of
                                 (Some e, res'', lg3) \<Rightarrow>
                                   (Inl e, Some (Dir res'' rl rm), lg1 @ lg2 @ lg3)
                               | (None, res'', lg3) \<Rightarrow>
                                   (Inr True, Some (Dir res'' rl rm), lg1 @ lg2 @ lg3)))))
           | _ \<Rightarrow> (Inr False, rep1, lg1 @ [(ERROR, Replica_folder_path_is_not_a_folder)])))"
| "forward_pass md5 source replica ok [] res = (None, res, [])"
| "forward_pass md5 source replica ok ((item, c) # rest) res =
     (let source_item_path = path_join source item;
          replica_item_path = path_join replica item
      in if isdir (Some c) then
           (case synchronize_folders md5 source_item_path replica_item_path ok
                   (Some c) (map_of res item) of
              (Inl e, r', lg) \<Rightarrow> (Some e, store item r' res, lg)
            | (Inr result, r', lg) \<Rightarrow>
                (case forward_pass md5 source replica ok rest (store item r' res) of
                   (e, res', lg') \<Rightarrow> (e, res', lg @ lg')))
         else
           (case sync_file md5 source_item_path replica_item_path item ok c
                   (map_of res item) of
              (r', lg) \<Rightarrow>
                (case forward_pass md5 source replica ok rest (store item r' res) of
                   (e, res', lg') \<Rightarrow> (e, res', lg @ lg'))))"
  by pat_completeness auto
termination
  by (relation "measure (\<lambda>x. case x of
            Inl (md5, source, replica, ok, src, rep) \<Rightarrow> size_option size src
          | Inr (md5, source, replica, ok, es, res) \<Rightarrow> size_list (size_prod (\<lambda>_. 0) size) es)")
     auto

section \<open>Command line and scheduler\<close>

subsection \<open>read\_commands\<close>

text \<open>
  The pattern \<^verbatim>\<open>^\d+[smhdSMHD]$\<close> under \<^verbatim>\<open>re.match\<close>: one or more digits and one unit
  letter; \<^verbatim>\<open>$\<close> also matches just before a newline that ends the string. Characters
  are bytes here, so \<^verbatim>\<open>\d\<close> is an ASCII digit.
\<close>

definition is_digit :: "char \<Rightarrow> bool" where
  "is_digit c = (c \<in> set ''0123456789'')"

definition digits_then_unit :: "string \<Rightarrow> bool" where
  "digits_then_unit s =
     (s \<noteq> [] \<and> last s \<in> set ''smhdSMHD'' \<and> butlast s \<noteq> [] \<and> list_all is_digit (butlast s))"

definition sync_interval_pattern :: "string \<Rightarrow> bool" where
  "sync_interval_pattern s =
     (digits_then_unit s \<or> (s \<noteq> [] \<and> last s = CHR 0x0A \<and> digits_then_unit (butlast s)))"

definition endswith :: "string \<Rightarrow> string \<Rightarrow> bool" where
  "endswith s suffix = (length suffix \<le> length s \<and> drop (length s - length suffix) s = suffix)"

record commands =
  source :: string
  replica :: string
  sync_interval :: string
  log_file_path :: string

definition read_commands :: "string list \<Rightarrow> commands option \<times> log" where
  "read_commands argv =
     (let lg = [(INFO, Commands_read argv)] in
      if length argv \<noteq> 5 then
        (None, lg @ [(ERROR, Invalid_number_of_arguments), (INFO, Usage)])
      else if argv ! 1 = argv ! 2 then (None, lg @ [(ERROR, Source_same_as_replica)])
      else if \<not> sync_interval_pattern (argv ! 3) then
        (None, lg @ [(ERROR, Bad_sync_interval_format)])
      else if \<not> endswith (argv ! 4) ''.log'' then
        (None, lg @ [(ERROR, Invalid_logger_extension)])
      else (Some \<lparr>source = argv ! 1, replica = argv ! 2, sync_interval = argv ! 3,
                  log_file_path = argv ! 4\<rparr>, lg))"

subsection \<open>start\_sync\<close>

text \<open>\<^verbatim>\<open>str.lower\<close> on one ASCII character.\<close>

definition lower :: "char \<Rightarrow> char" where
  "lower c =
     (case map_of (zip ''ABCDEFGHIJKLMNOPQRSTUVWXYZ'' ''abcdefghijklmnopqrstuvwxyz'') c of
        Some l \<Rightarrow> l
      | None \<Rightarrow> c)"

text \<open>
  \<^verbatim>\<open>int(s)\<close> on a string of ASCII digits; \<^verbatim>\<open>ValueError\<close> on the empty string and on
  any other character (Python's \<^verbatim>\<open>int\<close> also takes a sign, blanks and underscores,
  which the pattern of \<open>read_commands\<close> never lets through).
\<close>

definition digit_value :: "char \<Rightarrow> int" where
  "digit_value c = (case map_of (zip ''0123456789'' [0, 1, 2, 3, 4, 5, 6, 7, 8, 9]) c of
                      Some d \<Rightarrow> d | None \<Rightarrow> 0)"

definition py_int :: "string \<Rightarrow> exn + int" where
  "py_int s =
     (if s = [] \<or> \<not> list_all is_digit s then Inl ValueError
      else Inr (foldl (\<lambda>a c. 10 * a + digit_value c) 0 s))"

text \<open>The two dictionaries of lines 99 and 100; a missing key raises \<^verbatim>\<open>KeyError\<close>.\<close>

definition interval_to_seconds :: "char \<rightharpoonup> int" where
  "interval_to_seconds =
     [CHR ''s'' \<mapsto> 1, CHR ''m'' \<mapsto> 60, CHR ''h'' \<mapsto> 3600, CHR ''d'' \<mapsto> 86400]"

definition conversion :: "char \<rightharpoonup> string" where
  "conversion =
     [CHR ''s'' \<mapsto> ''seconds'', CHR ''m'' \<mapsto> ''minutes'', CHR ''h'' \<mapsto> ''hours'',
      CHR ''d'' \<mapsto> ''days'']"

text \<open>
  What the loop of \<open>start_sync\<close> works on: the trees at the source and the replica path
  and whether the replica may be created where it is missing. Between two passes the
  process sleeps, and the rest of the system may change the trees: \<open>env k\<close> is what
  happens to them during sleep number \<open>k\<close>.
\<close>

record world =
  source_tree :: "node option"
  replica_tree :: "node option"
  replica_parent_ok :: bool

datatype event = Called "exn + bool" | Slept int

datatype status = Running | Stopped | Crashed exn

text \<open>
  The \<^verbatim>\<open>while True\<close> loop of lines 102 to 107. It has no bound, so the model runs it
  for at most \<open>fuel\<close> passes and says \<open>Running\<close> when the loop would go on; \<open>Stopped\<close> is
  the \<^verbatim>\<open>break\<close>, \<open>Crashed\<close> an exception leaving \<open>start_sync\<close>. The events are the calls
  of \<open>synchronize_folders\<close> with what they gave and the calls of \<^verbatim>\<open>sleep\<close>.
\<close>

fun sync_loop ::
  "nat \<Rightarrow> digest \<Rightarrow> (nat \<Rightarrow> world \<Rightarrow> world) \<Rightarrow> path \<Rightarrow> path \<Rightarrow> int \<Rightarrow> nat \<Rightarrow> world
     \<Rightarrow> status \<times> event list \<times> world \<times> log" where
  "sync_loop 0 md5 env src_path rep_path secs k w = (Running, [], w, [])"
| "sync_loop (Suc fuel) md5 env src_path rep_path secs k w =
     (case synchronize_folders md5 src_path rep_path (replica_parent_ok w)
             (source_tree w) (replica_tree w) of
        (Inl e, rep', lg) \<Rightarrow>
          (Crashed e, [Called (Inl e)], w\<lparr>replica_tree := rep'\<rparr>,
           (INFO, Synchronizing_folders src_path rep_path) # lg)
      | (Inr result, rep', lg) \<Rightarrow>
          if result = False then
            (Stopped, [Called (Inr result)], w\<lparr>replica_tree := rep'\<rparr>,
             (INFO, Synchronizing_folders src_path rep_path) # lg)
          else
            (case sync_loop fuel md5 env src_path rep_path secs (Suc k)
                    (env k (w\<lparr>replica_tree := rep'\<rparr>)) of
               (st, evs, w', lg') \<Rightarrow>
                 (st, Called (Inr result) # Slept secs # evs, w',
                  (INFO, Synchronizing_folders src_path rep_path) # lg @ lg')))"

definition start_sync ::
  "nat \<Rightarrow> digest \<Rightarrow> (nat \<Rightarrow> world \<Rightarrow> world) \<Rightarrow> string \<Rightarrow> path \<Rightarrow> path \<Rightarrow> world
     \<Rightarrow> status \<times> event list \<times> world \<times> log" where
  "start_sync fuel md5 env interval_arg src_path rep_path w =
     (if interval_arg = [] then (Crashed IndexError, [], w, [])
      else
        let interval = last interval_arg in
        case py_int (butlast interval_arg) of
          Inl e \<Rightarrow> (Crashed e, [], w, [])
        | Inr val \<Rightarrow>
            (case interval_to_seconds (lower interval) of
               None \<Rightarrow> (Crashed KeyError, [], w, [])
             | Some secs \<Rightarrow>
                 (case conversion interval of
                    None \<Rightarrow> (Crashed KeyError, [], w, [])
                  | Some unit \<Rightarrow>
                      (case sync_loop fuel md5 env src_path rep_path (val * secs) 0 w of
                         (st, evs, w', lg) \<Rightarrow>
                           (st, evs, w', (INFO, Sync_interval_set val unit) # lg)))))"

section \<open>What the properties are stated with\<close>

subsection \<open>Trees\<close>

text \<open>A path can be read to its end: it is a file, it may be opened, no stored byte is faulty.\<close>

fun can_read :: "node option \<Rightarrow> bool" where
  "can_read (Some (File c r w flt)) = (r \<and> (case flt of None \<Rightarrow> True | Some k \<Rightarrow> length c \<le> k))"
| "can_read _ = False"

text \<open>A directory of a real file system has no two entries of one name.\<close>

fun wf_node :: "node \<Rightarrow> bool" where
  "wf_node (File c r w flt) = True"
| "wf_node (Dir es l m) = (distinct (map fst es) \<and> (\<forall>(n, c) \<in> set es. wf_node c))"

text \<open>No listing and no read of the tree raises.\<close>

fun readable_tree :: "node \<Rightarrow> bool" where
  "readable_tree (File c r w flt) = can_read (Some (File c r w flt))"
| "readable_tree (Dir es l m) = (l \<and> (\<forall>(n, c) \<in> set es. readable_tree c))"

text \<open>No operation of a pass on the replica tree raises: listing, reading, writing, creating, removing.\<close>

fun replica_ok :: "node \<Rightarrow> bool" where
  "replica_ok (File c r w flt) = (w \<and> can_read (Some (File c r w flt)))"
| "replica_ok (Dir es l m) = (l \<and> m \<and> (\<forall>(n, c) \<in> set es. replica_ok c))"

text \<open>Every directory of the tree may be listed and lets its entries be removed.\<close>

fun deletable :: "node \<Rightarrow> bool" where
  "deletable (File c r w flt) = True"
| "deletable (Dir es l m) = (l \<and> m \<and> (\<forall>(n, c) \<in> set es. deletable c))"

text \<open>Every directory of the tree may be listed.\<close>

fun listable_tree :: "node \<Rightarrow> bool" where
  "listable_tree (File c r w flt) = True"
| "listable_tree (Dir es l m) = (l \<and> (\<forall>(n, c) \<in> set es. listable_tree c))"

text \<open>No path is a file in one tree and a directory in the other.\<close>

fun same_kinds :: "node \<Rightarrow> node \<Rightarrow> bool" where
  "same_kinds (File c r w flt) (File c' r' w' flt') = True"
| "same_kinds (Dir es l m) (Dir rs l' m') =
     (\<forall>(n, s) \<in> set es. case map_of rs n of None \<Rightarrow> True | Some r \<Rightarrow> same_kinds s r)"
| "same_kinds (File c r w flt) (Dir rs l' m') = False"
| "same_kinds (Dir es l m) (File c' r' w' flt') = False"

text \<open>Two files at one path of the two trees with the same fingerprint have the same bytes.\<close>

fun collision_free :: "digest \<Rightarrow> node \<Rightarrow> node \<Rightarrow> bool" where
  "collision_free md5 (File c r w flt) (File c' r' w' flt') =
     (hexdigest (md5 c) = hexdigest (md5 c') \<longrightarrow> c = c')"
| "collision_free md5 (Dir es l m) (Dir rs l' m') =
     (\<forall>(n, s) \<in> set es. case map_of rs n of None \<Rightarrow> True | Some r \<Rightarrow> collision_free md5 s r)"
| "collision_free md5 (File c r w flt) (Dir rs l' m') = True"
| "collision_free md5 (Dir es l m) (File c' r' w' flt') = True"

text \<open>
  The second tree has the paths of the first and no other, with the same kind at each,
  and the files at one path have the same fingerprint (\<open>in_sync\<close>) or the same bytes
  (\<open>mirrors\<close>).
\<close>

fun in_sync :: "digest \<Rightarrow> node \<Rightarrow> node \<Rightarrow> bool" where
  "in_sync md5 (File c r w flt) (File c' r' w' flt') = (hexdigest (md5 c) = hexdigest (md5 c'))"
| "in_sync md5 (Dir es l m) (Dir rs l' m') =
     (fst ` set rs = fst ` set es \<and>
      (\<forall>(n, s) \<in> set es. case map_of rs n of None \<Rightarrow> False | Some r \<Rightarrow> in_sync md5 s r))"
| "in_sync md5 (File c r w flt) (Dir rs l' m') = False"
| "in_sync md5 (Dir es l m) (File c' r' w' flt') = False"

fun mirrors :: "node \<Rightarrow> node \<Rightarrow> bool" where
  "mirrors (File c r w flt) (File c' r' w' flt') = (c = c')"
| "mirrors (Dir es l m) (Dir rs l' m') =
     (fst ` set rs = fst ` set es \<and>
      (\<forall>(n, s) \<in> set es. case map_of rs n of None \<Rightarrow> False | Some r \<Rightarrow> mirrors s r))"
| "mirrors (File c r w flt) (Dir rs l' m') = False"
| "mirrors (Dir es l m) (File c' r' w' flt') = False"

text \<open>Every path of the second tree is a path of the first, with the same kind.\<close>

fun covered :: "node \<Rightarrow> node \<Rightarrow> bool" where
  "covered (File c r w flt) (File c' r' w' flt') = True"
| "covered (Dir es l m) (Dir rs l' m') =
     (\<forall>(n, r) \<in> set rs. case map_of es n of None \<Rightarrow> False | Some s \<Rightarrow> covered s r)"
| "covered (File c r w flt) (Dir rs l' m') = False"
| "covered (Dir es l m) (File c' r' w' flt') = False"

text \<open>What is found at a relative path below a node: a file with its bytes, a directory, or nothing.\<close>

datatype entry = A_file "byte list" | A_directory

fun entry_at :: "node \<Rightarrow> path \<Rightarrow> entry option" where
  "entry_at (File c r w flt) [] = Some (A_file c)"
| "entry_at (Dir es l m) [] = Some A_directory"
| "entry_at (File c r w flt) (x # p) = None"
| "entry_at (Dir es l m) (x # p) = (case map_of es x of None \<Rightarrow> None | Some c \<Rightarrow> entry_at c p)"

text \<open>
  The deletions of a tree from the bottom up: the children in listing order, each with
  all that is below it first, then the directory itself.
\<close>

fun deletion_log :: "path \<Rightarrow> node \<Rightarrow> log" where
  "deletion_log p (File c r w flt) = [(INFO, Deleting_file p)]"
| "deletion_log p (Dir es l m) =
     concat (map (\<lambda>(n, c). deletion_log (path_join p n) c) es) @ [(INFO, Deleting_folder p)]"

text \<open>The names of the files of a tree in the order in which a pass meets them.\<close>

fun file_names :: "node \<Rightarrow> name list" where
  "file_names (File c r w flt) = []"
| "file_names (Dir es l m) =
     concat (map (\<lambda>(n, c). if isdir (Some c) then file_names c else [n]) es)"

subsection \<open>One round of the first loop\<close>

text \<open>
  The body of the first loop of \<open>synchronize_folders\<close> for the entry \<open>item\<close> of the
  source with node \<open>c\<close>, when \<open>r\<close> is at the replica path: the exception that leaves it,
  the node left at the replica path, the log.
\<close>

definition item_step ::
  "digest \<Rightarrow> path \<Rightarrow> path \<Rightarrow> bool \<Rightarrow> name \<Rightarrow> node \<Rightarrow> node option \<Rightarrow> exn option \<times> node option \<times> log" where
  "item_step md5 sip rip ok item c r =
     (if isdir (Some c) then
        (case synchronize_folders md5 sip rip ok (Some c) r of
           (Inl e, r', lg) \<Rightarrow> (Some e, r', lg)
         | (Inr b, r', lg) \<Rightarrow> (None, r', lg))
      else
        (case sync_file md5 sip rip item ok c r of
           (r', lg) \<Rightarrow> (None, r', lg)))"

text \<open>
  Before a pass: nothing raises and no path is a file on one side and a directory on
  the other. After it: the replica is in the same state and has the paths of the source.
\<close>

definition pre_ok :: "node \<Rightarrow> node option \<Rightarrow> bool" where
  "pre_ok s rep =
     (wf_node s \<and> readable_tree s \<and>
      (case rep of None \<Rightarrow> True | Some r \<Rightarrow> wf_node r \<and> replica_ok r \<and> same_kinds s r))"

definition post_ok :: "digest \<Rightarrow> node \<Rightarrow> node option \<Rightarrow> node \<Rightarrow> bool" where
  "post_ok md5 s rep r' =
     (wf_node r' \<and> replica_ok r' \<and> in_sync md5 s r' \<and>
      ((case rep of None \<Rightarrow> True | Some r \<Rightarrow> collision_free md5 s r) \<longrightarrow> mirrors s r'))"

subsection \<open>An input or output error on one file\<close>

text \<open>
  Hashing raises when the replica path holds something and one of the two sides cannot
  be read to its end. Copying raises when the copy is reached (nothing at the replica
  path, or two different results of the hasher) and one of its operations raises.
\<close>

definition hashing_fails :: "node \<Rightarrow> node option \<Rightarrow> bool" where
  "hashing_fails s r = (path_exists r \<and> (\<not> can_read (Some s) \<or> \<not> can_read r))"

definition copying_fails :: "digest \<Rightarrow> bool \<Rightarrow> node \<Rightarrow> node option \<Rightarrow> bool" where
  "copying_fails md5 ok s r =
     (\<not> (path_exists r \<and>
          fst (calculate_file_hash md5 [] (Some s)) = fst (calculate_file_hash md5 [] r)) \<and>
      fst (copy_file ok s r) = Inl OSError)"

subsection \<open>Examples\<close>

text \<open>
  A stand-in for the digest in examples (the length of the input), and the trees of
  the end-to-end scenario: the source holds \<^verbatim>\<open>a.txt\<close> with \<^verbatim>\<open>hi\<close> and
  \<^verbatim>\<open>sub/b.txt\<close> with \<^verbatim>\<open>bye\<close>, the replica \<^verbatim>\<open>a.txt\<close> with \<^verbatim>\<open>old\<close> and \<^verbatim>\<open>c.txt\<close>
  with \<^verbatim>\<open>stale\<close>.
\<close>

definition example_digest :: digest where
  "example_digest bs = of_nat (length bs)"

definition example_source :: node where
  "example_source =
     Dir [(''a.txt'', File [104, 105] True True None),
          (''sub'', Dir [(''b.txt'', File [98, 121, 101] True True None)] True True)] True True"

definition example_replica :: node where
  "example_replica =
     Dir [(''a.txt'', File [111, 108, 100] True True None),
          (''c.txt'', File [115, 116, 97, 108, 101] True True None)] True True"

definition example_result :: node where
  "example_result =
     Dir [(''a.txt'', File [104, 105] True True None),
          (''sub'', Dir [(''b.txt'', File [98, 121, 101] True True None)] True True)] True True"

text \<open>Nothing changes the trees while the scheduler sleeps.\<close>

definition idle :: "nat \<Rightarrow> world \<Rightarrow> world" where
  "idle k w = w"

section \<open>Properties of the operations\<close>

subsection \<open>The hasher reads a file to its end or fails\<close>

lemma CHUNK_SIZE_pos: "0 < CHUNK_SIZE" by (simp add: CHUNK_SIZE_def)

lemma read_at_sound:
  assumes "case fault f of None \<Rightarrow> True | Some k \<Rightarrow> length (content f) \<le> k"
  shows "read_at f pos n = Inr (take n (drop pos (content f)))"
  using assms by (auto simp: read_at_def Let_def split: option.splits)

lemma hash_loop_sound:
  assumes "case fault f of None \<Rightarrow> True | Some k \<Rightarrow> length (content f) \<le> k"
  shows "hash_loop f pos fed = Inr (fed @ drop pos (content f))"
  using assms
proof (induction f pos fed rule: hash_loop.induct)
  case (1 f pos fed)
  let ?chunk = "take CHUNK_SIZE (drop pos (content f))"
  have rd: "read_at f pos CHUNK_SIZE = Inr ?chunk"
    using "1.prems" by (rule read_at_sound)
  show ?case
  proof (cases "?chunk = []")
    case True
    then have "drop pos (content f) = []" using CHUNK_SIZE_pos by (auto simp: take_eq_Nil)
    with True rd show ?thesis by (simp add: hash_loop.simps [of f pos fed])
  next
    case False
    have "hash_loop f (pos + length ?chunk) (fed @ ?chunk)
            = Inr ((fed @ ?chunk) @ drop (pos + length ?chunk) (content f))"
      using "1.IH" [OF rd False] "1.prems" by simp
    moreover have "?chunk @ drop (pos + length ?chunk) (content f) = drop pos (content f)"
      by (metis add.commute append_take_drop_id drop_drop length_take min.commute take_all_iff linorder_le_cases min_def)
    ultimately show ?thesis using False rd by (simp add: hash_loop.simps [of f pos fed])
  qed
qed

lemma hash_loop_fault:
  assumes "fault f = Some k" "pos \<le> k" "k < length (content f)"
  shows "hash_loop f pos fed = Inl OSError"
  using assms
proof (induction f pos fed rule: hash_loop.induct)
  case (1 f pos fed)
  let ?chunk = "take CHUNK_SIZE (drop pos (content f))"
  show ?case
  proof (cases "k < pos + length ?chunk")
    case True
    with "1.prems" have "read_at f pos CHUNK_SIZE = Inl OSError"
      by (simp add: read_at_def Let_def)
    then show ?thesis by (simp add: hash_loop.simps [of f pos fed])
  next
    case False
    with "1.prems" have rd: "read_at f pos CHUNK_SIZE = Inr ?chunk"
      by (simp add: read_at_def Let_def)
    have ne: "?chunk \<noteq> []" using "1.prems" CHUNK_SIZE_pos by (auto simp: take_eq_Nil)
    have "hash_loop f (pos + length ?chunk) (fed @ ?chunk) = Inl OSError"
      using "1.IH" [OF rd ne] "1.prems" False by simp
    with rd ne show ?thesis by (simp add: hash_loop.simps [of f pos fed])
  qed
qed

lemma length_hexdigest: "length (hexdigest d) = 32"
  by (simp add: hexdigest_def)

lemma calculate_file_hash_eq:
  "calculate_file_hash md5 filepath x =
     (if can_read x then (Some (hexdigest (md5 (content (the x)))), [])
      else (None, [(ERROR, Failed_to_open_file filepath)]))"
proof (cases x)
  case None
  then show ?thesis by (simp add: calculate_file_hash_def)
next
  case (Some n)
  show ?thesis
  proof (cases n)
    case (Dir es l m)
    with Some show ?thesis by (simp add: calculate_file_hash_def)
  next
    case (File c r w flt)
    show ?thesis
    proof (cases "can_read x")
      case True
      with Some File
      have "hash_loop (File c r w flt) 0 [] = Inr ([] @ drop 0 (content (File c r w flt)))"
        by (intro hash_loop_sound) (auto split: option.splits)
      with True Some File show ?thesis by (simp add: calculate_file_hash_def)
    next
      case False
      show ?thesis
      proof (cases r)
        case False
        with Some File show ?thesis by (simp add: calculate_file_hash_def)
      next
        case True
        with False Some File obtain k where k: "flt = Some k" "k < length c"
          by (auto split: option.splits)
        then have "hash_loop (File c r w flt) 0 [] = Inl OSError"
          by (intro hash_loop_fault [where k = k]) auto
        with True False Some File show ?thesis by (simp add: calculate_file_hash_def)
      qed
    qed
  qed
qed

lemma read_all_eq:
  "read_all f = (case fault f of None \<Rightarrow> Inr (content f)
                 | Some k \<Rightarrow> if k < length (content f) then Inl OSError else Inr (content f))"
  by (auto simp: read_all_def read_at_def split: option.splits)

subsection \<open>Storing what a call left\<close>

lemma map_of_store: "map_of (store k x es) = (map_of es)(k := x)"
  by (cases x) (simp_all add: store_def update_conv' delete_conv')

lemma distinct_store: "distinct (map fst es) \<Longrightarrow> distinct (map fst (store k x es))"
  by (cases x) (simp_all add: store_def distinct_update distinct_delete)

lemma store_same: "map_of es k = Some v \<Longrightarrow> store k (Some v) es = es"
  by (simp add: store_def update_triv)

subsection \<open>The first loop, entry by entry\<close>

lemma forward_pass_Cons:
  "forward_pass md5 sp rp ok ((item, c) # rest) res =
     (case item_step md5 (path_join sp item) (path_join rp item) ok item c (map_of res item) of
        (Some e, r', lg) \<Rightarrow> (Some e, store item r' res, lg)
      | (None, r', lg) \<Rightarrow>
          (case forward_pass md5 sp rp ok rest (store item r' res) of
             (e, res', lg') \<Rightarrow> (e, res', lg @ lg')))"
  by (simp add: item_step_def Let_def split: prod.splits sum.splits)

lemma forward_pass_char:
  assumes "distinct (map fst ses)"
    and "\<forall>(n, c) \<in> set ses. fst (item_step md5 (path_join sp n) (path_join rp n) ok n c (map_of res n)) = None"
  shows "\<exists>res'. forward_pass md5 sp rp ok ses res =
           (None, res',
            concat (map (\<lambda>(n, c). snd (snd (item_step md5 (path_join sp n) (path_join rp n) ok n c (map_of res n)))) ses))
         \<and> (\<forall>k. map_of res' k =
               (case map_of ses k of
                  None \<Rightarrow> map_of res k
                | Some c \<Rightarrow> fst (snd (item_step md5 (path_join sp k) (path_join rp k) ok k c (map_of res k)))))
         \<and> (distinct (map fst res) \<longrightarrow> distinct (map fst res'))"
  using assms
proof (induction ses arbitrary: res)
  case Nil
  then show ?case by simp
next
  case (Cons x rest)
  obtain item c where x: "x = (item, c)" by (cases x)
  from Cons.prems x have notin: "item \<notin> fst ` set rest" and drest: "distinct (map fst rest)"
    by auto
  from Cons.prems x obtain r' lg where
    step: "item_step md5 (path_join sp item) (path_join rp item) ok item c (map_of res item) = (None, r', lg)"
    by (cases "item_step md5 (path_join sp item) (path_join rp item) ok item c (map_of res item)") auto
  let ?res1 = "store item r' res"
  have same: "map_of ?res1 n = map_of res n" if "n \<in> fst ` set rest" for n
    using that notin by (auto simp: map_of_store)
  have "\<forall>(n, c) \<in> set rest. fst (item_step md5 (path_join sp n) (path_join rp n) ok n c (map_of ?res1 n)) = None"
  proof (clarify)
    fix n c' assume mem: "(n, c') \<in> set rest"
    then have "n \<in> fst ` set rest" by force
    with same have "map_of ?res1 n = map_of res n" by simp
    moreover from Cons.prems(2) mem have "fst (item_step md5 (path_join sp n) (path_join rp n) ok n c' (map_of res n)) = None"
      by auto
    ultimately show "fst (item_step md5 (path_join sp n) (path_join rp n) ok n c' (map_of ?res1 n)) = None" by simp
  qed
  from Cons.IH [OF drest this] obtain res' where
    fp: "forward_pass md5 sp rp ok rest ?res1 =
           (None, res',
            concat (map (\<lambda>(n, c). snd (snd (item_step md5 (path_join sp n) (path_join rp n) ok n c (map_of ?res1 n)))) rest))"
    and ch: "\<And>k. map_of res' k =
               (case map_of rest k of
                  None \<Rightarrow> map_of ?res1 k
                | Some c \<Rightarrow> fst (snd (item_step md5 (path_join sp k) (path_join rp k) ok k c (map_of ?res1 k))))"
    and di: "distinct (map fst ?res1) \<longrightarrow> distinct (map fst res')"
    by blast
  have logs: "map (\<lambda>(n, c). snd (snd (item_step md5 (path_join sp n) (path_join rp n) ok n c (map_of ?res1 n)))) rest
            = map (\<lambda>(n, c). snd (snd (item_step md5 (path_join sp n) (path_join rp n) ok n c (map_of res n)))) rest"
    by (rule map_cong [OF refl]) (use same in force)
  have run: "forward_pass md5 sp rp ok (x # rest) res =
           (None, res',
            concat (map (\<lambda>(n, c). snd (snd (item_step md5 (path_join sp n) (path_join rp n) ok n c (map_of res n)))) (x # rest)))"
    using step fp logs by (simp add: x forward_pass_Cons del: forward_pass.simps)
  have char: "map_of res' k =
               (case map_of (x # rest) k of
                  None \<Rightarrow> map_of res k
                | Some c \<Rightarrow> fst (snd (item_step md5 (path_join sp k) (path_join rp k) ok k c (map_of res k))))" for k
  proof (cases "k = item")
    case True
    with notin have "map_of rest k = None" by (simp add: map_of_eq_None_iff)
    with ch [of k] True step show ?thesis by (simp add: x map_of_store)
  next
    case False
    show ?thesis
    proof (cases "map_of rest k")
      case None
      with ch [of k] False show ?thesis by (simp add: x map_of_store)
    next
      case (Some c')
      then have "(k, c') \<in> set rest" by (rule map_of_SomeD)
      then have "k \<in> fst ` set rest" by force
      with same have "map_of ?res1 k = map_of res k" by simp
      with ch [of k] Some False show ?thesis by (simp add: x)
    qed
  qed
  have "distinct (map fst res) \<longrightarrow> distinct (map fst res')"
    using di distinct_store by blast
  with run char show ?case by blast
qed

subsection \<open>Deleting what can be deleted\<close>

lemma delete_item_deletable:
  "ok \<Longrightarrow> deletable c \<Longrightarrow> delete_item p ok c = (None, None, deletion_log p c)"
  "ok \<Longrightarrow> \<forall>(n, c) \<in> set es. deletable c \<Longrightarrow>
     delete_children p ok es =
       (None, [], concat (map (\<lambda>(n, c). deletion_log (path_join p n) c) es))"
proof (induction p ok c and p ok es rule: delete_item_delete_children.induct)
  case (1 itempath parent_ok c r w flt)
  then show ?case by simp
next
  case (2 itempath parent_ok es l m)
  then show ?case by simp
next
  case (3 itempath ok)
  then show ?case by simp
next
  case (4 itempath ok item c rest)
  then show ?case by simp
qed

lemma delete_orphans_char:
  assumes "\<forall>(n, c) \<in> set res. map_of ses n = None \<longrightarrow> deletable c"
  shows "delete_orphans rp ses True res =
           (None, filter (\<lambda>(n, c). map_of ses n \<noteq> None) res,
            concat (map (\<lambda>(n, c). if map_of ses n = None
                                   then deletion_log (path_join rp n) c else []) res))"
  using assms
proof (induction res)
  case Nil
  then show ?case by simp
next
  case (Cons x rest)
  obtain item c where x: "x = (item, c)" by (cases x)
  from Cons have IH: "delete_orphans rp ses True rest =
           (None, filter (\<lambda>(n, c). map_of ses n \<noteq> None) rest,
            concat (map (\<lambda>(n, c). if map_of ses n = None
                                   then deletion_log (path_join rp n) c else []) rest))"
    by simp
  show ?case
  proof (cases "map_of ses item")
    case None
    with Cons.prems x have "deletable c" by simp
    then have "delete_item (path_join rp item) True c = (None, None, deletion_log (path_join rp item) c)"
      by (simp add: delete_item_deletable)
    with None IH show ?thesis by (simp add: x path_exists_def)
  next
    case (Some s)
    with IH show ?thesis by (simp add: x path_exists_def)
  qed
qed

lemma map_of_filter_keys:
  "map_of (filter (\<lambda>(n, c). P n) es) k = (if P k then map_of es k else None)"
  by (induction es) auto

subsection \<open>One file and one directory level\<close>

lemma replica_ok_deletable: "replica_ok c \<Longrightarrow> deletable c"
  by (induction c) auto

lemma sync_file_new:
  assumes "can_read (Some s)"
  shows "sync_file md5 sip rip item True s None =
           (Some (File (content s) True True None), [(INFO, Synchronizing_file rip)])"
proof -
  from assms obtain c r w flt where s: "s = File c r w flt" by (cases s) auto
  with assms have "read_all (File c r w flt) = Inr c"
    by (auto simp: read_all_eq split: option.splits)
  with s assms show ?thesis
    by (simp add: sync_file_def path_exists_def copy_file_def)
qed

lemma sync_file_existing:
  assumes "can_read (Some s)" "can_read (Some r)" "writable r"
  shows "sync_file md5 sip rip item ok s (Some r) =
           (if hexdigest (md5 (content s)) = hexdigest (md5 (content r))
            then (Some r, [(INFO, Hash_match item)])
            else (Some (File (content s) (readable r) True None),
                  [(INFO, Synchronizing_file rip)]))"
proof -
  from assms obtain c rd w flt where s: "s = File c rd w flt" by (cases s) auto
  from assms obtain c' rd' w' flt' where r: "r = File c' rd' w' flt'" by (cases r) auto
  from s assms have "read_all (File c rd w flt) = Inr c"
    by (auto simp: read_all_eq split: option.splits)
  with s r assms show ?thesis
    by (simp add: sync_file_def path_exists_def copy_file_def calculate_file_hash_eq)
qed

lemma sync_on_missing_replica:
  "parent_ok \<Longrightarrow>
   synchronize_folders md5 sp rp parent_ok (Some (Dir ses sl sm)) None =
     (case synchronize_folders md5 sp rp parent_ok (Some (Dir ses sl sm)) (Some (Dir [] True True)) of
        (x, r', lg) \<Rightarrow> (x, r', (INFO, Synchronizing_folder rp) # lg))"
  by (simp add: ensure_replica_def path_exists_def split: sum.splits prod.splits option.splits)

lemma level_char:
  assumes ds: "distinct (map fst ses)" and dr: "distinct (map fst res)"
    and items: "\<forall>(n, c) \<in> set ses.
          fst (item_step md5 (path_join sp n) (path_join rp n) True n c (map_of res n)) = None"
    and orphans: "\<forall>(n, c) \<in> set res. map_of ses n = None \<longrightarrow> deletable c"
  shows "\<exists>res'' lg3.
           synchronize_folders md5 sp rp parent_ok (Some (Dir ses True sm)) (Some (Dir res True True)) =
             (Inr True, Some (Dir res'' True True),
              concat (map (\<lambda>(n, c). snd (snd (item_step md5 (path_join sp n) (path_join rp n)
                                                 True n c (map_of res n)))) ses) @ lg3)
         \<and> distinct (map fst res'')
         \<and> (\<forall>k. map_of res'' k =
               (case map_of ses k of
                  None \<Rightarrow> None
                | Some c \<Rightarrow> fst (snd (item_step md5 (path_join sp k) (path_join rp k)
                                          True k c (map_of res k)))))"
proof -
  let ?lg2 = "concat (map (\<lambda>(n, c). snd (snd (item_step md5 (path_join sp n) (path_join rp n)
                                                 True n c (map_of res n)))) ses)"
  from forward_pass_char [OF ds items] dr obtain res' where
    fp: "forward_pass md5 sp rp True ses res = (None, res', ?lg2)"
    and ch: "\<And>k. map_of res' k =
               (case map_of ses k of
                  None \<Rightarrow> map_of res k
                | Some c \<Rightarrow> fst (snd (item_step md5 (path_join sp k) (path_join rp k)
                                          True k c (map_of res k))))"
    and di: "distinct (map fst res')"
    by blast
  have "\<forall>(n, c) \<in> set res'. map_of ses n = None \<longrightarrow> deletable c"
  proof (clarify)
    fix n c assume mem: "(n, c) \<in> set res'" and none: "map_of ses n = None"
    from mem di have "map_of res' n = Some c" by simp
    with ch [of n] none have "map_of res n = Some c" by simp
    then have "(n, c) \<in> set res" by (rule map_of_SomeD)
    with orphans none show "deletable c" by auto
  qed
  from delete_orphans_char [OF this, of rp] obtain lg3 where
    del: "delete_orphans rp ses True res' =
            (None, filter (\<lambda>(n, c). map_of ses n \<noteq> None) res', lg3)"
    by blast
  let ?res'' = "filter (\<lambda>(n, c). map_of ses n \<noteq> None) res'"
  have run: "synchronize_folders md5 sp rp parent_ok (Some (Dir ses True sm)) (Some (Dir res True True)) =
             (Inr True, Some (Dir ?res'' True True), ?lg2 @ lg3)"
    using fp del by (simp add: ensure_replica_def path_exists_def)
  have d2: "distinct (map fst ?res'')" using di by (simp add: distinct_map_filter)
  have "map_of ?res'' k =
               (case map_of ses k of
                  None \<Rightarrow> None
                | Some c \<Rightarrow> fst (snd (item_step md5 (path_join sp k) (path_join rp k)
                                          True k c (map_of res k))))" for k
    using ch [of k] by (simp add: map_of_filter_keys split: option.splits)
  with run d2 show ?thesis by blast
qed

lemma sync_dir_result:
  assumes "rep = None \<and> parent_ok \<or> isdir rep"
  shows "fst (synchronize_folders md5 sp rp parent_ok (Some (Dir ses sl sm)) rep) \<noteq> Inr False"
proof (cases rep)
  case None
  with assms show ?thesis
    by (simp add: ensure_replica_def path_exists_def split: sum.splits prod.splits option.splits)
next
  case (Some r)
  with assms obtain res rl rm where "r = Dir res rl rm" by (cases r) auto
  with Some show ?thesis
    by (simp add: ensure_replica_def path_exists_def split: sum.splits prod.splits option.splits)
qed

subsection \<open>A pass on which nothing raises\<close>

lemma item_converges_file:
  assumes "pre_ok (File c r w flt) rep"
  shows "\<exists>r' lg. item_step md5 sip rip True item (File c r w flt) rep = (None, Some r', lg)
           \<and> post_ok md5 (File c r w flt) rep r'"
proof (cases rep)
  case None
  from assms have "can_read (Some (File c r w flt))" by (simp add: pre_ok_def)
  from sync_file_new [OF this, of md5 sip rip item] None show ?thesis
    by (simp add: item_step_def post_ok_def)
next
  case (Some r0)
  with assms obtain c' rd' w' flt' where r0: "r0 = File c' rd' w' flt'"
    by (cases r0) (auto simp: pre_ok_def)
  from assms Some r0 have cr: "can_read (Some (File c r w flt))" "can_read (Some r0)" "writable r0"
    by (auto simp: pre_ok_def)
  from sync_file_existing [OF cr, of md5 sip rip item True] Some r0 cr show ?thesis
    by (auto simp: item_step_def post_ok_def)
qed

lemma item_converges_dir:
  assumes IH: "\<And>n c sip rip item rep. (n, c) \<in> set ses \<Longrightarrow> pre_ok c rep \<Longrightarrow>
          \<exists>r' lg. item_step md5 sip rip True item c rep = (None, Some r', lg) \<and> post_ok md5 c rep r'"
    and pre: "pre_ok (Dir ses sl sm) (Some (Dir res rl rm))"
  shows "\<exists>r' lg. synchronize_folders md5 sp rp parent_ok (Some (Dir ses sl sm)) (Some (Dir res rl rm))
              = (Inr True, Some r', lg)
           \<and> post_ok md5 (Dir ses sl sm) (Some (Dir res rl rm)) r'"
proof -
  from pre have flags: "sl" "rl" "rm" and ds: "distinct (map fst ses)" and dr: "distinct (map fst res)"
    by (auto simp: pre_ok_def)
  have child_pre: "pre_ok c (map_of res n)" if "(n, c) \<in> set ses" for n c
  proof (cases "map_of res n")
    case None
    with that pre show ?thesis by (auto simp: pre_ok_def)
  next
    case (Some r0)
    then have "(n, r0) \<in> set res" by (rule map_of_SomeD)
    with that pre Some show ?thesis by (fastforce simp: pre_ok_def)
  qed
  have step: "\<exists>r' lg. item_step md5 (path_join sp n) (path_join rp n) True n c (map_of res n)
                  = (None, Some r', lg) \<and> post_ok md5 c (map_of res n) r'"
    if "(n, c) \<in> set ses" for n c
    using IH [OF that child_pre [OF that]] .
  have items: "\<forall>(n, c) \<in> set ses.
          fst (item_step md5 (path_join sp n) (path_join rp n) True n c (map_of res n)) = None"
    using step by fastforce
  have orphans: "\<forall>(n, c) \<in> set res. map_of ses n = None \<longrightarrow> deletable c"
    using pre by (auto simp: pre_ok_def intro: replica_ok_deletable)
  from level_char [OF ds dr items orphans, of parent_ok sm] obtain res'' lg where
    run: "synchronize_folders md5 sp rp parent_ok (Some (Dir ses True sm)) (Some (Dir res True True))
            = (Inr True, Some (Dir res'' True True), lg)"
    and d2: "distinct (map fst res'')"
    and ch: "\<And>k. map_of res'' k =
               (case map_of ses k of
                  None \<Rightarrow> None
                | Some c \<Rightarrow> fst (snd (item_step md5 (path_join sp k) (path_join rp k)
                                          True k c (map_of res k))))"
    by blast
  have key: "\<exists>r'. map_of res'' n = Some r' \<and> post_ok md5 c (map_of res n) r'"
    if "(n, c) \<in> set ses" for n c
  proof -
    from that ds have "map_of ses n = Some c" by simp
    with ch [of n] step [OF that] show ?thesis by auto
  qed
  have from_res: "\<exists>c. (n, c) \<in> set ses \<and> post_ok md5 c (map_of res n) r'"
    if "(n, r') \<in> set res''" for n r'
  proof -
    from that d2 have m: "map_of res'' n = Some r'" by simp
    with ch [of n] obtain c where c: "map_of ses n = Some c" by (auto split: option.splits)
    then have mem: "(n, c) \<in> set ses" by (rule map_of_SomeD)
    from key [OF mem] m show ?thesis using mem by auto
  qed
  have names: "fst ` set res'' = fst ` set ses"
  proof -
    have "map_of res'' n \<noteq> None \<longleftrightarrow> map_of ses n \<noteq> None" for n
    proof
      assume "map_of res'' n \<noteq> None"
      with ch [of n] show "map_of ses n \<noteq> None" by (auto split: option.splits)
    next
      assume "map_of ses n \<noteq> None"
      then obtain c where "map_of ses n = Some c" by auto
      then have "(n, c) \<in> set ses" by (rule map_of_SomeD)
      from key [OF this] show "map_of res'' n \<noteq> None" by auto
    qed
    then have "dom (map_of res'') = dom (map_of ses)" by (auto simp: dom_def)
    then show ?thesis by (simp add: dom_map_of_conv_image_fst)
  qed
  have wf: "wf_node (Dir res'' True True)"
    using d2 from_res by (fastforce simp: post_ok_def)
  have ok: "replica_ok (Dir res'' True True)"
    using from_res by (fastforce simp: post_ok_def)
  have ins: "in_sync md5 (Dir ses sl sm) (Dir res'' True True)"
    using names key by (fastforce simp: post_ok_def)
  have mir: "mirrors (Dir ses sl sm) (Dir res'' True True)"
    if cf: "collision_free md5 (Dir ses sl sm) (Dir res rl rm)"
  proof -
    have "case map_of res'' n of None \<Rightarrow> False | Some r \<Rightarrow> mirrors c r"
      if mem: "(n, c) \<in> set ses" for n c
    proof -
      from cf mem have "case map_of res n of None \<Rightarrow> True | Some r \<Rightarrow> collision_free md5 c r"
        by auto
      with key [OF mem] show ?thesis by (auto simp: post_ok_def)
    qed
    with names show ?thesis by auto
  qed
  from run flags wf ok ins mir show ?thesis by (auto simp: post_ok_def)
qed

lemma item_converges:
  "pre_ok c rep \<Longrightarrow>
   \<exists>r' lg. item_step md5 sip rip True item c rep = (None, Some r', lg) \<and> post_ok md5 c rep r'"
proof (induction c arbitrary: sip rip item rep)
  case (File c r w flt)
  then show ?case by (rule item_converges_file)
next
  case (Dir ses sl sm)
  have IH: "\<exists>r' lg. item_step md5 sip rip True item c rep = (None, Some r', lg) \<and> post_ok md5 c rep r'"
    if "(n, c) \<in> set ses" "pre_ok c rep" for n c sip rip item rep
    using Dir.IH [of "(n, c)" c] that by simp
  have dir: "\<exists>r' lg. synchronize_folders md5 sip rip True (Some (Dir ses sl sm)) (Some (Dir res rl rm))
              = (Inr True, Some r', lg)
           \<and> post_ok md5 (Dir ses sl sm) (Some (Dir res rl rm)) r'"
    if "pre_ok (Dir ses sl sm) (Some (Dir res rl rm))" for res rl rm
    using IH that by (rule item_converges_dir)
  show ?case
  proof (cases rep)
    case (Some r0)
    with Dir.prems obtain res rl rm where r0: "r0 = Dir res rl rm"
      by (cases r0) (auto simp: pre_ok_def)
    from dir [of res rl rm] Dir.prems Some r0
    show ?thesis by (auto simp: item_step_def simp del: synchronize_folders.simps)
  next
    case None
    from Dir.prems have pre': "pre_ok (Dir ses sl sm) (Some (Dir [] True True))"
      by (auto simp: pre_ok_def)
    from dir [OF pre']
    obtain r' lg where
      run: "synchronize_folders md5 sip rip True (Some (Dir ses sl sm)) (Some (Dir [] True True))
              = (Inr True, Some r', lg)"
      and post: "post_ok md5 (Dir ses sl sm) (Some (Dir [] True True)) r'"
      by blast
    from post have "post_ok md5 (Dir ses sl sm) None r'" by (auto simp: post_ok_def)
    with run None show ?thesis
      by (simp add: item_step_def sync_on_missing_replica del: synchronize_folders.simps)
  qed
qed

subsection \<open>A pass over a replica that is in the same state\<close>

lemma sync_file_match:
  assumes "can_read (Some s)" "can_read (Some r)"
    and "hexdigest (md5 (content s)) = hexdigest (md5 (content r))"
  shows "sync_file md5 sip rip item ok s (Some r) = (Some r, [(INFO, Hash_match item)])"
  using assms by (simp add: sync_file_def path_exists_def calculate_file_hash_eq)

lemma replica_ok_readable: "replica_ok c \<Longrightarrow> readable_tree c"
  by (induction c) auto

lemma forward_pass_noop:
  assumes "\<forall>(n, c) \<in> set ses. \<exists>r. map_of res n = Some r \<and>
             item_step md5 (path_join sp n) (path_join rp n) ok n c (Some r) = (None, Some r, L n c)"
  shows "forward_pass md5 sp rp ok ses res = (None, res, concat (map (\<lambda>(n, c). L n c) ses))"
  using assms
proof (induction ses)
  case Nil
  then show ?case by simp
next
  case (Cons x rest)
  obtain item c where x: "x = (item, c)" by (cases x)
  from Cons.prems x obtain r where r: "map_of res item = Some r"
    and step: "item_step md5 (path_join sp item) (path_join rp item) ok item c (Some r)
                 = (None, Some r, L item c)"
    by auto
  from Cons have "forward_pass md5 sp rp ok rest res = (None, res, concat (map (\<lambda>(n, c). L n c) rest))"
    by simp
  with r step show ?case
    by (simp add: x forward_pass_Cons store_same del: forward_pass.simps)
qed

lemma delete_orphans_none:
  assumes "\<forall>(n, c) \<in> set res. map_of ses n \<noteq> None"
  shows "delete_orphans rp ses ok res = (None, res, [])"
  using assms by (induction res) (auto simp: path_exists_def)

lemma item_noop_dir:
  assumes IH: "\<And>n c sip rip item ok r. (n, c) \<in> set ses \<Longrightarrow>
            wf_node c \<Longrightarrow> readable_tree c \<Longrightarrow> readable_tree r \<Longrightarrow> in_sync md5 c r \<Longrightarrow>
            item_step md5 sip rip ok item c (Some r) =
              (None, Some r, map (\<lambda>n. (INFO, Hash_match n))
                               (if isdir (Some c) then file_names c else [item]))"
    and s: "wf_node (Dir ses sl sm)" "readable_tree (Dir ses sl sm)"
    and r: "readable_tree (Dir res rl rm)"
    and ins: "in_sync md5 (Dir ses sl sm) (Dir res rl rm)"
  shows "synchronize_folders md5 sp rp parent_ok (Some (Dir ses sl sm)) (Some (Dir res rl rm)) =
           (Inr True, Some (Dir res rl rm),
            map (\<lambda>n. (INFO, Hash_match n)) (file_names (Dir ses sl sm)))"
proof -
  let ?L = "\<lambda>n c. map (\<lambda>n. (INFO, Hash_match n)) (if isdir (Some c) then file_names c else [n])"
  have "\<forall>(n, c) \<in> set ses. \<exists>r. map_of res n = Some r \<and>
             item_step md5 (path_join sp n) (path_join rp n) rm n c (Some r) = (None, Some r, ?L n c)"
  proof (clarify)
    fix n c assume mem: "(n, c) \<in> set ses"
    with ins obtain r0 where r0: "map_of res n = Some r0" "in_sync md5 c r0"
      by (auto split: option.splits)
    then have "(n, r0) \<in> set res" by (auto dest: map_of_SomeD)
    with r have "readable_tree r0" by auto
    moreover from mem s have "wf_node c" "readable_tree c" by auto
    ultimately have "item_step md5 (path_join sp n) (path_join rp n) rm n c (Some r0)
                       = (None, Some r0, ?L n c)"
      using IH [OF mem] r0 by simp
    with r0 show "\<exists>r. map_of res n = Some r \<and>
             item_step md5 (path_join sp n) (path_join rp n) rm n c (Some r) = (None, Some r, ?L n c)"
      by simp
  qed
  then have fp: "forward_pass md5 sp rp rm ses res = (None, res, concat (map (\<lambda>(n, c). ?L n c) ses))"
    by (rule forward_pass_noop)
  have "\<forall>(n, c) \<in> set res. map_of ses n \<noteq> None"
  proof (clarify)
    fix n c y assume mem: "(n, c) \<in> set res"
    then have "n \<in> fst ` set res" by force
    with ins have "n \<in> fst ` set ses" by simp
    then show "\<exists>y. map_of ses n = Some y"
      by (metis map_of_eq_None_iff not_Some_eq)
  qed
  then have del: "delete_orphans rp ses rm res = (None, res, [])"
    by (rule delete_orphans_none)
  have lg: "concat (map (\<lambda>(n, c). ?L n c) ses)
              = map (\<lambda>n. (INFO, Hash_match n)) (file_names (Dir ses sl sm))"
    by (simp add: map_concat comp_def case_prod_unfold)
  from s r fp del lg show ?thesis
    by (simp add: ensure_replica_def path_exists_def)
qed

lemma item_noop:
  "wf_node c \<Longrightarrow> readable_tree c \<Longrightarrow> readable_tree r \<Longrightarrow> in_sync md5 c r \<Longrightarrow>
   item_step md5 sip rip ok item c (Some r) =
     (None, Some r, map (\<lambda>n. (INFO, Hash_match n))
                      (if isdir (Some c) then file_names c else [item]))"
proof (induction c arbitrary: sip rip item ok r)
  case (File c rd w flt)
  then obtain c' rd' w' flt' where r: "r = File c' rd' w' flt'" by (cases r) auto
  with File have "can_read (Some (File c rd w flt))" "can_read (Some r)"
    "hexdigest (md5 (content (File c rd w flt))) = hexdigest (md5 (content r))"
    by auto
  then have "sync_file md5 sip rip item ok (File c rd w flt) (Some r)
               = (Some r, [(INFO, Hash_match item)])"
    by (rule sync_file_match)
  then show ?case by (simp add: item_step_def)
next
  case (Dir ses sl sm)
  then obtain res rl rm where r: "r = Dir res rl rm" by (cases r) auto
  have IH: "item_step md5 sip rip ok item c (Some r) =
              (None, Some r, map (\<lambda>n. (INFO, Hash_match n))
                               (if isdir (Some c) then file_names c else [item]))"
    if "(n, c) \<in> set ses" "wf_node c" "readable_tree c" "readable_tree r" "in_sync md5 c r"
    for n c sip rip item ok r
    using Dir.IH [of "(n, c)" c] that by simp
  have "synchronize_folders md5 sip rip ok (Some (Dir ses sl sm)) (Some (Dir res rl rm)) =
           (Inr True, Some (Dir res rl rm),
            map (\<lambda>n. (INFO, Hash_match n)) (file_names (Dir ses sl sm)))"
    using IH Dir.prems [unfolded r] by (rule item_noop_dir)
  with r show ?case by (simp add: item_step_def del: synchronize_folders.simps file_names.simps)
qed

subsection \<open>From trees to relative paths\<close>

lemma mirrors_entry_at: "mirrors s r \<Longrightarrow> entry_at r p = entry_at s p"
proof (induction s arbitrary: r p)
  case (File c rd w flt)
  then obtain c' rd' w' flt' where "r = File c' rd' w' flt'" by (cases r) auto
  with File show ?case by (cases p) auto
next
  case (Dir ses sl sm)
  then obtain res rl rm where r: "r = Dir res rl rm" by (cases r) auto
  show ?case
  proof (cases p)
    case Nil
    with r show ?thesis by simp
  next
    case (Cons x q)
    show ?thesis
    proof (cases "map_of ses x")
      case None
      then have "x \<notin> fst ` set ses" by (simp add: map_of_eq_None_iff)
      with Dir.prems r have "x \<notin> fst ` set res" by simp
      then have "map_of res x = None" by (simp add: map_of_eq_None_iff)
      with None Cons r show ?thesis by simp
    next
      case (Some c)
      then have mem: "(x, c) \<in> set ses" by (rule map_of_SomeD)
      with Dir.prems r obtain r0 where r0: "map_of res x = Some r0" "mirrors c r0"
        by (auto split: option.splits)
      from Dir.IH [of "(x, c)" c r0 q] mem r0 have "entry_at r0 q = entry_at c q" by simp
      with Some r0 Cons r show ?thesis by simp
    qed
  qed
qed

lemma in_sync_paths: "in_sync md5 s r \<Longrightarrow> entry_at r p = None \<longleftrightarrow> entry_at s p = None"
proof (induction s arbitrary: r p)
  case (File c rd w flt)
  then obtain c' rd' w' flt' where "r = File c' rd' w' flt'" by (cases r) auto
  with File show ?case by (cases p) auto
next
  case (Dir ses sl sm)
  then obtain res rl rm where r: "r = Dir res rl rm" by (cases r) auto
  show ?case
  proof (cases p)
    case Nil
    with r show ?thesis by simp
  next
    case (Cons x q)
    show ?thesis
    proof (cases "map_of ses x")
      case None
      then have "x \<notin> fst ` set ses" by (simp add: map_of_eq_None_iff)
      with Dir.prems r have "x \<notin> fst ` set res" by simp
      then have "map_of res x = None" by (simp add: map_of_eq_None_iff)
      with None Cons r show ?thesis by simp
    next
      case (Some c)
      then have mem: "(x, c) \<in> set ses" by (rule map_of_SomeD)
      with Dir.prems r obtain r0 where r0: "map_of res x = Some r0" "in_sync md5 c r0"
        by (auto split: option.splits)
      from Dir.IH [of "(x, c)" c r0 q] mem r0
      have "entry_at r0 q = None \<longleftrightarrow> entry_at c q = None" by simp
      with Some r0 Cons r show ?thesis by simp
    qed
  qed
qed

subsection \<open>The value returned\<close>

lemma sync_source_missing:
  "fst (synchronize_folders md5 sp rp ok None rep) = Inr False"
  by simp

lemma sync_source_file:
  "fst (synchronize_folders md5 sp rp ok (Some (File c r w flt)) rep) = Inr False"
  by (simp split: sum.splits prod.splits)

lemma sync_replica_file:
  "fst (synchronize_folders md5 sp rp ok (Some (Dir ses sl sm)) (Some (File c r w flt))) = Inr False"
  by (simp add: ensure_replica_def path_exists_def)

lemma sync_replica_uncreatable:
  "fst (synchronize_folders md5 sp rp False (Some (Dir ses sl sm)) None) = Inr False"
  by (simp add: ensure_replica_def path_exists_def)

lemma sync_parent_irrelevant:
  "synchronize_folders md5 sp rp ok (Some s) (Some r) = synchronize_folders md5 sp rp True (Some s) (Some r)"
proof (cases s)
  case (File c rd w flt)
  then show ?thesis by (simp add: ensure_replica_def path_exists_def)
next
  case (Dir ses sl sm)
  then show ?thesis by (simp add: ensure_replica_def path_exists_def)
qed


lemma sync_True_D:
  assumes "synchronize_folders md5 sp rp ok src rep = (Inr True, rep', lg)"
  shows "isdir src \<and> (rep = None \<longrightarrow> ok) \<and> (rep = None \<or> isdir rep)"
proof -
  have 1: "isdir src"
  proof (rule ccontr)
    assume "\<not> isdir src"
    then have "src = None \<or> (\<exists>c r w flt. src = Some (File c r w flt))"
      by (cases src rule: isdir.cases) auto
    then have "fst (synchronize_folders md5 sp rp ok src rep) = Inr False"
      using sync_source_missing sync_source_file by blast
    with assms show False by simp
  qed
  then obtain ses sl sm where src: "src = Some (Dir ses sl sm)"
    by (cases src rule: isdir.cases) auto
  have 2: "ok" if "rep = None"
  proof (rule ccontr)
    assume "\<not> ok"
    with that src have "fst (synchronize_folders md5 sp rp ok src rep) = Inr False"
      using sync_replica_uncreatable by simp
    with assms show False by simp
  qed
  have 3: "rep = None \<or> isdir rep"
  proof (rule ccontr)
    assume "\<not> (rep = None \<or> isdir rep)"
    then obtain c r w flt where "rep = Some (File c r w flt)"
      by (cases rep rule: isdir.cases) auto
    with src have "fst (synchronize_folders md5 sp rp ok src rep) = Inr False"
      using sync_replica_file by simp
    with assms show False by simp
  qed
  from 1 2 3 show ?thesis by blast
qed

lemma sync_converges:
  assumes "pre_ok s rep" "isdir (Some s)" "rep = None \<longrightarrow> ok"
  shows "\<exists>r' lg. synchronize_folders md5 sp rp ok (Some s) rep = (Inr True, Some r', lg)
           \<and> post_ok md5 s rep r'"
proof -
  from item_converges [OF assms(1), of md5 sp rp "[]"] obtain r' lg where
    st: "item_step md5 sp rp True [] s rep = (None, Some r', lg)" and post: "post_ok md5 s rep r'"
    by blast
  have eq: "synchronize_folders md5 sp rp ok (Some s) rep = synchronize_folders md5 sp rp True (Some s) rep"
  proof (cases rep)
    case None
    with assms(3) show ?thesis by simp
  next
    case (Some r)
    then show ?thesis using sync_parent_irrelevant by simp
  qed
  from assms(2) obtain ses sl sm where s: "s = Dir ses sl sm" by (cases s) auto
  obtain x r'' lg'' where
    raw: "synchronize_folders md5 sp rp True (Some s) rep = (x, r'', lg'')"
    by (cases "synchronize_folders md5 sp rp True (Some s) rep") auto
  with st assms(2) obtain b where b: "x = Inr b" "r'' = Some r'" "lg'' = lg"
    by (cases x) (auto simp: item_step_def simp del: synchronize_folders.simps)
  have "rep = None \<and> True \<or> isdir rep"
  proof (cases rep)
    case None
    then show ?thesis by simp
  next
    case (Some r)
    with assms(1) have "same_kinds s r" by (simp add: pre_ok_def)
    with s have "isdir (Some r)" by (cases r) auto
    with Some show ?thesis by simp
  qed
  from sync_dir_result [OF this, of md5 sp rp ses sl sm] raw s b have "b" by auto
  with raw b eq post show ?thesis by simp
qed

subsection \<open>The scheduler loop\<close>

lemma sync_loop_false_last:
  assumes "sync_loop fuel md5 env sp rp secs k w = (st, evs, w', lg)"
    and "Called (Inr False) \<in> set evs"
  shows "st = Stopped \<and> (\<exists>pre. evs = pre @ [Called (Inr False)] \<and> Called (Inr False) \<notin> set pre)"
  using assms
proof (induction fuel arbitrary: k w st evs w' lg)
  case 0
  then show ?case by simp
next
  case (Suc fuel)
  obtain x rep' lg0 where
    run: "synchronize_folders md5 sp rp (replica_parent_ok w) (source_tree w) (replica_tree w)
            = (x, rep', lg0)"
    by (cases "synchronize_folders md5 sp rp (replica_parent_ok w) (source_tree w) (replica_tree w)")
       auto
  show ?case
  proof (cases x)
    case (Inl e)
    with Suc.prems run show ?thesis by auto
  next
    case (Inr result)
    show ?thesis
    proof (cases result)
      case False
      with Inr Suc.prems run show ?thesis by auto
    next
      case True
      obtain st1 evs1 w1 lg1 where
        rest: "sync_loop fuel md5 env sp rp secs (Suc k) (env k (w\<lparr>replica_tree := rep'\<rparr>))
                 = (st1, evs1, w1, lg1)"
        by (cases "sync_loop fuel md5 env sp rp secs (Suc k) (env k (w\<lparr>replica_tree := rep'\<rparr>))")
           auto
      with True Inr run Suc.prems have
        eq: "st = st1" "evs = Called (Inr True) # Slept secs # evs1"
        by auto
      with Suc.prems(2) have "Called (Inr False) \<in> set evs1" by simp
      from Suc.IH [OF rest this] obtain pre where
        "st1 = Stopped" "evs1 = pre @ [Called (Inr False)]" "Called (Inr False) \<notin> set pre"
        by blast
      with eq have "st = Stopped"
        "evs = (Called (Inr True) # Slept secs # pre) @ [Called (Inr False)]"
        "Called (Inr False) \<notin> set (Called (Inr True) # Slept secs # pre)"
        by auto
      then show ?thesis by blast
    qed
  qed
qed

lemma sync_loop_stopped_stable:
  assumes "sync_loop fuel md5 env sp rp secs k w = (Stopped, evs, w', lg)"
  shows "sync_loop (fuel + j) md5 env sp rp secs k w = (Stopped, evs, w', lg)"
  using assms
proof (induction fuel arbitrary: k w evs w' lg)
  case 0
  then show ?case by simp
next
  case (Suc fuel)
  obtain x rep' lg0 where
    run: "synchronize_folders md5 sp rp (replica_parent_ok w) (source_tree w) (replica_tree w)
            = (x, rep', lg0)"
    by (cases "synchronize_folders md5 sp rp (replica_parent_ok w) (source_tree w) (replica_tree w)")
       auto
  show ?case
  proof (cases x)
    case (Inl e)
    with Suc.prems run show ?thesis by simp
  next
    case (Inr result)
    show ?thesis
    proof (cases result)
      case False
      with Inr Suc.prems run show ?thesis by auto
    next
      case True
      obtain st1 evs1 w1 lg1 where
        rest: "sync_loop fuel md5 env sp rp secs (Suc k) (env k (w\<lparr>replica_tree := rep'\<rparr>))
                 = (st1, evs1, w1, lg1)"
        by (cases "sync_loop fuel md5 env sp rp secs (Suc k) (env k (w\<lparr>replica_tree := rep'\<rparr>))")
           auto
      with True Inr run Suc.prems have st1: "st1 = Stopped" by auto
      from Suc.IH [OF rest [unfolded st1], of ] rest st1
      have "sync_loop (fuel + j) md5 env sp rp secs (Suc k) (env k (w\<lparr>replica_tree := rep'\<rparr>))
                 = (Stopped, evs1, w1, lg1)"
        by simp
      with True Inr run Suc.prems rest show ?thesis by auto
    qed
  qed
qed

lemma start_sync_run:
  assumes "start_sync fuel md5 env a sp rp w = (st, evs, w', lg)" and "evs \<noteq> []"
  shows "\<exists>val secs unit lg'.
           a \<noteq> [] \<and> py_int (butlast a) = Inr val \<and>
           interval_to_seconds (lower (last a)) = Some secs \<and> conversion (last a) = Some unit \<and>
           sync_loop fuel md5 env sp rp (val * secs) 0 w = (st, evs, w', lg') \<and>
           lg = (INFO, Sync_interval_set val unit) # lg'"
  using assms
  by (auto simp: start_sync_def Let_def split: if_splits sum.splits option.splits prod.splits)

lemma start_sync_of_loop:
  assumes "a \<noteq> []" "py_int (butlast a) = Inr val"
    "interval_to_seconds (lower (last a)) = Some secs" "conversion (last a) = Some unit"
    "sync_loop fuel md5 env sp rp (val * secs) 0 w = (st, evs, w', lg')"
  shows "start_sync fuel md5 env a sp rp w = (st, evs, w', (INFO, Sync_interval_set val unit) # lg')"
  using assms by (simp add: start_sync_def Let_def)

subsection \<open>The unit letter\<close>

lemma py_int_digits:
  "ds \<noteq> [] \<Longrightarrow> list_all is_digit ds \<Longrightarrow>
   py_int ds = Inr (foldl (\<lambda>a c. 10 * a + digit_value c) 0 ds)"
  by (simp add: py_int_def)

lemma lower_units:
  "lower (CHR ''s'') = CHR ''s''" "lower (CHR ''m'') = CHR ''m''"
  "lower (CHR ''h'') = CHR ''h''" "lower (CHR ''d'') = CHR ''d''"
  "lower (CHR ''S'') = CHR ''s''" "lower (CHR ''M'') = CHR ''m''"
  "lower (CHR ''H'') = CHR ''h''" "lower (CHR ''D'') = CHR ''d''"
  by code_simp+

lemma seconds_of_units:
  "interval_to_seconds (CHR ''s'') = Some 1" "interval_to_seconds (CHR ''m'') = Some 60"
  "interval_to_seconds (CHR ''h'') = Some 3600" "interval_to_seconds (CHR ''d'') = Some 86400"
  by (simp_all add: interval_to_seconds_def)

lemma names_of_units:
  "conversion (CHR ''s'') = Some ''seconds''" "conversion (CHR ''m'') = Some ''minutes''"
  "conversion (CHR ''h'') = Some ''hours''" "conversion (CHR ''d'') = Some ''days''"
  "conversion (CHR ''S'') = None" "conversion (CHR ''M'') = None"
  "conversion (CHR ''H'') = None" "conversion (CHR ''D'') = None"
  by (simp_all add: conversion_def)

lemma start_sync_lowercase_unit:
  assumes "ds \<noteq> []" "list_all is_digit ds" "u \<in> set ''smhd''"
  shows "\<exists>secs unit.
           interval_to_seconds u = Some secs \<and> conversion u = Some unit \<and>
           start_sync fuel md5 env (ds @ [u]) sp rp w =
             (case sync_loop fuel md5 env sp rp
                     (foldl (\<lambda>a c. 10 * a + digit_value c) 0 ds * secs) 0 w of
                (st, evs, w', lg) \<Rightarrow>
                  (st, evs, w',
                   (INFO, Sync_interval_set (foldl (\<lambda>a c. 10 * a + digit_value c) 0 ds) unit)
                     # lg))"
proof -
  from assms(3) have "u = CHR ''s'' \<or> u = CHR ''m'' \<or> u = CHR ''h'' \<or> u = CHR ''d''"
    by simp
  then obtain secs unit where
    tbl: "interval_to_seconds (lower u) = Some secs" "interval_to_seconds u = Some secs"
      "conversion u = Some unit"
    by (elim disjE) (simp_all add: lower_units seconds_of_units names_of_units)
  with py_int_digits [OF assms(1,2)] show ?thesis
    by (simp add: start_sync_def)
qed

lemma start_sync_uppercase_crashes:
  assumes "ds \<noteq> []" "list_all is_digit ds" "u \<in> set ''SMHD''"
  shows "sync_interval_pattern (ds @ [u]) \<and>
         start_sync fuel md5 env (ds @ [u]) sp rp w = (Crashed KeyError, [], w, [])"
proof -
  from assms(3) have u: "u = CHR ''S'' \<or> u = CHR ''M'' \<or> u = CHR ''H'' \<or> u = CHR ''D''"
    by simp
  then have "u \<in> set ''smhdSMHD''" by auto
  with assms(1,2) have "digits_then_unit (ds @ [u])" by (simp add: digits_then_unit_def)
  then have pat: "sync_interval_pattern (ds @ [u])" by (simp add: sync_interval_pattern_def)
  from u obtain secs where
    tbl: "interval_to_seconds (lower u) = Some secs" "conversion u = None"
    by (elim disjE) (simp_all add: lower_units seconds_of_units names_of_units)
  with py_int_digits [OF assms(1,2)] have
    "start_sync fuel md5 env (ds @ [u]) sp rp w = (Crashed KeyError, [], w, [])"
    by (simp add: start_sync_def)
  with pat show ?thesis by simp
qed

subsection \<open>A directory level with one file set apart\<close>

lemma item_step_file:
  "\<not> isdir (Some f) \<Longrightarrow>
   item_step md5 sip rip ok item f r =
     (None, fst (sync_file md5 sip rip item ok f r), snd (sync_file md5 sip rip item ok f r))"
  by (simp add: item_step_def split: prod.splits)

lemma level_with_special:
  assumes ds: "distinct (map fst ses)" and dr: "distinct (map fst res)"
    and special: "(x, f) \<in> set ses" "\<not> isdir (Some f)"
    and others: "\<forall>(n, s) \<in> set ses. n \<noteq> x \<longrightarrow> pre_ok s (map_of res n)"
    and orphans: "\<forall>(n, c) \<in> set res. map_of ses n = None \<longrightarrow> deletable c"
  shows "\<exists>res' lg.
           synchronize_folders md5 sp rp parent_ok (Some (Dir ses True sm)) (Some (Dir res True True))
             = (Inr True, Some (Dir res' True True), lg)
         \<and> set (snd (sync_file md5 (path_join sp x) (path_join rp x) x True f (map_of res x)))
             \<subseteq> set lg
         \<and> map_of res' x = fst (sync_file md5 (path_join sp x) (path_join rp x) x True f (map_of res x))
         \<and> (\<forall>(n, s) \<in> set ses. n \<noteq> x \<longrightarrow>
               (\<exists>r'. map_of res' n = Some r' \<and> post_ok md5 s (map_of res n) r'))"
proof -
  let ?step = "\<lambda>n c. item_step md5 (path_join sp n) (path_join rp n) True n c (map_of res n)"
  have other: "\<exists>r' lg. ?step n s = (None, Some r', lg) \<and> post_ok md5 s (map_of res n) r'"
    if "(n, s) \<in> set ses" "n \<noteq> x" for n s
  proof -
    from that others have "pre_ok s (map_of res n)" by auto
    then show ?thesis by (rule item_converges)
  qed
  have mine: "s = f" if "(x, s) \<in> set ses" for s
    using that special(1) ds by (meson eq_key_imp_eq_value)
  have items: "\<forall>(n, c) \<in> set ses. fst (?step n c) = None"
  proof (clarify)
    fix n c assume mem: "(n, c) \<in> set ses"
    show "fst (?step n c) = None"
    proof (cases "n = x")
      case True
      with mem mine have "c = f" by simp
      with special(2) show ?thesis by (simp add: item_step_file)
    next
      case False
      from other [OF mem False] show ?thesis by auto
    qed
  qed
  from level_char [OF ds dr items orphans, of parent_ok sm] obtain res' lg3 where
    run: "synchronize_folders md5 sp rp parent_ok (Some (Dir ses True sm)) (Some (Dir res True True))
            = (Inr True, Some (Dir res' True True),
               concat (map (\<lambda>(n, c). snd (snd (?step n c))) ses) @ lg3)"
    and ch: "\<And>k. map_of res' k =
               (case map_of ses k of None \<Rightarrow> None | Some c \<Rightarrow> fst (snd (?step k c)))"
    by blast
  from special(1) ds have mx: "map_of ses x = Some f" by simp
  have "set (snd (snd (?step x f))) \<subseteq> set (concat (map (\<lambda>(n, c). snd (snd (?step n c))) ses))"
    using special(1) by force
  with special(2) have lg:
    "set (snd (sync_file md5 (path_join sp x) (path_join rp x) x True f (map_of res x)))
       \<subseteq> set (concat (map (\<lambda>(n, c). snd (snd (?step n c))) ses) @ lg3)"
    by (auto simp: item_step_file)
  from ch [of x] mx special(2) have
    at_x: "map_of res' x = fst (sync_file md5 (path_join sp x) (path_join rp x) x True f (map_of res x))"
    by (simp add: item_step_file)
  have rest: "\<forall>(n, s) \<in> set ses. n \<noteq> x \<longrightarrow>
               (\<exists>r'. map_of res' n = Some r' \<and> post_ok md5 s (map_of res n) r')"
  proof (clarify)
    fix n s assume mem: "(n, s) \<in> set ses" and ne: "n \<noteq> x"
    from mem ds have "map_of ses n = Some s" by simp
    with ch [of n] other [OF mem ne]
    show "\<exists>r'. map_of res' n = Some r' \<and> post_ok md5 s (map_of res n) r'" by auto
  qed
  from run lg at_x rest show ?thesis by blast
qed

lemma sync_file_error_logged:
  assumes "hashing_fails (File c r w flt) x \<or> copying_fails md5 ok (File c r w flt) x"
  shows "(ERROR, Failed_to_open_file sip) \<in> set (snd (sync_file md5 sip rip item ok (File c r w flt) x))
       \<or> (ERROR, Failed_to_open_file rip) \<in> set (snd (sync_file md5 sip rip item ok (File c r w flt) x))
       \<or> (ERROR, Failed_to_synchronize sip rip)
            \<in> set (snd (sync_file md5 sip rip item ok (File c r w flt) x))"
  using assms
  by (auto simp: hashing_fails_def copying_fails_def sync_file_def calculate_file_hash_eq
           split: prod.splits sum.splits if_splits)

lemma sync_file_both_unreadable:
  assumes "\<not> can_read (Some f)" "\<not> can_read (Some r)"
  shows "sync_file md5 sip rip item ok f (Some r) =
           (Some r, [(ERROR, Failed_to_open_file sip), (ERROR, Failed_to_open_file rip),
                     (INFO, Hash_match item)])"
  using assms by (simp add: sync_file_def path_exists_def calculate_file_hash_eq)

subsection \<open>A pass on which no listing and no removal raises\<close>

lemma sync_file_kind:
  assumes "r = None \<or> isfile r"
  shows "fst (sync_file md5 sip rip item ok (File c rd w flt) r) = None \<or>
         isfile (fst (sync_file md5 sip rip item ok (File c rd w flt) r))"
proof (cases r)
  case None
  then show ?thesis
    by (auto simp: sync_file_def copy_file_def path_exists_def read_all_eq split: option.splits)
next
  case (Some r0)
  with assms obtain c' rd' w' flt' where "r0 = File c' rd' w' flt'" by (cases r0) auto
  with Some show ?thesis
    by (auto simp: sync_file_def copy_file_def path_exists_def read_all_eq calculate_file_hash_eq
             split: option.splits)
qed

lemma item_prunes_file:
  assumes "case rep of None \<Rightarrow> True
           | Some r \<Rightarrow> wf_node r \<and> deletable r \<and> same_kinds (File c rd w flt) r"
  shows "\<exists>r' lg. item_step md5 sip rip True item (File c rd w flt) rep = (None, r', lg)
           \<and> (case r' of None \<Rightarrow> True
               | Some r1 \<Rightarrow> wf_node r1 \<and> deletable r1 \<and> covered (File c rd w flt) r1)"
proof -
  have "rep = None \<or> isfile rep"
  proof (cases rep)
    case None
    then show ?thesis by simp
  next
    case (Some r0)
    with assms have "same_kinds (File c rd w flt) r0" by simp
    then have "isfile (Some r0)" by (cases r0) auto
    with Some show ?thesis by simp
  qed
  from sync_file_kind [OF this, of md5 sip rip item True c rd w flt]
  have k: "fst (sync_file md5 sip rip item True (File c rd w flt) rep) = None \<or>
           isfile (fst (sync_file md5 sip rip item True (File c rd w flt) rep))" .
  have "case fst (sync_file md5 sip rip item True (File c rd w flt) rep) of
          None \<Rightarrow> True
        | Some r1 \<Rightarrow> wf_node r1 \<and> deletable r1 \<and> covered (File c rd w flt) r1"
  proof (cases "fst (sync_file md5 sip rip item True (File c rd w flt) rep)")
    case None
    then show ?thesis by simp
  next
    case (Some r1)
    with k obtain c' rd' w' flt' where "r1 = File c' rd' w' flt'" by (cases r1) auto
    with Some show ?thesis by simp
  qed
  moreover obtain r' lg where "sync_file md5 sip rip item True (File c rd w flt) rep = (r', lg)"
    by (cases "sync_file md5 sip rip item True (File c rd w flt) rep") auto
  ultimately show ?thesis by (simp add: item_step_file)
qed

lemma item_prunes_dir:
  assumes IH: "\<And>n c sip rip item rep. (n, c) \<in> set ses \<Longrightarrow>
          wf_node c \<Longrightarrow> listable_tree c \<Longrightarrow>
          (case rep of None \<Rightarrow> True | Some r \<Rightarrow> wf_node r \<and> deletable r \<and> same_kinds c r) \<Longrightarrow>
          \<exists>r' lg. item_step md5 sip rip True item c rep = (None, r', lg)
             \<and> (case r' of None \<Rightarrow> True | Some r1 \<Rightarrow> wf_node r1 \<and> deletable r1 \<and> covered c r1)"
    and s: "wf_node (Dir ses sl sm)" "listable_tree (Dir ses sl sm)"
    and r: "wf_node (Dir res rl rm)" "deletable (Dir res rl rm)"
    and k: "same_kinds (Dir ses sl sm) (Dir res rl rm)"
  shows "\<exists>res'' lg. synchronize_folders md5 sp rp parent_ok (Some (Dir ses sl sm)) (Some (Dir res rl rm))
              = (Inr True, Some (Dir res'' rl rm), lg)
           \<and> wf_node (Dir res'' rl rm) \<and> deletable (Dir res'' rl rm)
           \<and> covered (Dir ses sl sm) (Dir res'' rl rm)"
proof -
  from s r have flags: "sl" "rl" "rm" and ds: "distinct (map fst ses)" and dr: "distinct (map fst res)"
    by auto
  let ?step = "\<lambda>n c. item_step md5 (path_join sp n) (path_join rp n) True n c (map_of res n)"
  have step: "\<exists>r' lg. ?step n c = (None, r', lg)
                \<and> (case r' of None \<Rightarrow> True | Some r1 \<Rightarrow> wf_node r1 \<and> deletable r1 \<and> covered c r1)"
    if mem: "(n, c) \<in> set ses" for n c
  proof -
    have "case map_of res n of None \<Rightarrow> True
          | Some r0 \<Rightarrow> wf_node r0 \<and> deletable r0 \<and> same_kinds c r0"
    proof (cases "map_of res n")
      case None
      then show ?thesis by simp
    next
      case (Some r0)
      then have "(n, r0) \<in> set res" by (rule map_of_SomeD)
      with mem r k Some show ?thesis by fastforce
    qed
    moreover from mem s have "wf_node c" "listable_tree c" by auto
    ultimately show ?thesis using IH [OF mem] by blast
  qed
  have items: "\<forall>(n, c) \<in> set ses. fst (?step n c) = None"
    using step by fastforce
  have orphans: "\<forall>(n, c) \<in> set res. map_of ses n = None \<longrightarrow> deletable c"
    using r by auto
  from level_char [OF ds dr items orphans, of parent_ok sm] obtain res'' lg where
    run: "synchronize_folders md5 sp rp parent_ok (Some (Dir ses True sm)) (Some (Dir res True True))
            = (Inr True, Some (Dir res'' True True), lg)"
    and d2: "distinct (map fst res'')"
    and ch: "\<And>k. map_of res'' k =
               (case map_of ses k of None \<Rightarrow> None | Some c \<Rightarrow> fst (snd (?step k c)))"
    by blast
  have from_res: "\<exists>c. map_of ses n = Some c \<and> wf_node r1 \<and> deletable r1 \<and> covered c r1"
    if "(n, r1) \<in> set res''" for n r1
  proof -
    from that d2 have m: "map_of res'' n = Some r1" by simp
    with ch [of n] obtain c where c: "map_of ses n = Some c" by (auto split: option.splits)
    then have mem: "(n, c) \<in> set ses" by (rule map_of_SomeD)
    from step [OF mem] ch [of n] c m show ?thesis by auto
  qed
  have "wf_node (Dir res'' True True)" using d2 from_res by fastforce
  moreover have "deletable (Dir res'' True True)" using from_res by fastforce
  moreover have "covered (Dir ses sl sm) (Dir res'' True True)" using from_res by fastforce
  moreover from flags have "sl = True" "rl = True" "rm = True" by simp_all
  ultimately show ?thesis using run by (auto simp del: synchronize_folders.simps)
qed

lemma item_prunes:
  "wf_node c \<Longrightarrow> listable_tree c \<Longrightarrow>
   (case rep of None \<Rightarrow> True | Some r \<Rightarrow> wf_node r \<and> deletable r \<and> same_kinds c r) \<Longrightarrow>
   \<exists>r' lg. item_step md5 sip rip True item c rep = (None, r', lg)
      \<and> (case r' of None \<Rightarrow> True | Some r1 \<Rightarrow> wf_node r1 \<and> deletable r1 \<and> covered c r1)"
proof (induction c arbitrary: sip rip item rep)
  case (File c rd w flt)
  then show ?case by (intro item_prunes_file)
next
  case (Dir ses sl sm)
  have IH: "\<exists>r' lg. item_step md5 sip rip True item c rep = (None, r', lg)
             \<and> (case r' of None \<Rightarrow> True | Some r1 \<Rightarrow> wf_node r1 \<and> deletable r1 \<and> covered c r1)"
    if "(n, c) \<in> set ses" "wf_node c" "listable_tree c"
      "case rep of None \<Rightarrow> True | Some r \<Rightarrow> wf_node r \<and> deletable r \<and> same_kinds c r"
    for n c sip rip item rep
    using Dir.IH [of "(n, c)" c] that by simp
  have dir: "\<exists>res'' lg. synchronize_folders md5 sip rip True (Some (Dir ses sl sm)) (Some (Dir res rl rm))
              = (Inr True, Some (Dir res'' rl rm), lg)
           \<and> wf_node (Dir res'' rl rm) \<and> deletable (Dir res'' rl rm)
           \<and> covered (Dir ses sl sm) (Dir res'' rl rm)"
    if "wf_node (Dir res rl rm)" "deletable (Dir res rl rm)"
       "same_kinds (Dir ses sl sm) (Dir res rl rm)" for res rl rm
    using IH Dir.prems(1,2) that by (rule item_prunes_dir)
  show ?case
  proof (cases rep)
    case (Some r0)
    with Dir.prems obtain res rl rm where r0: "r0 = Dir res rl rm" by (cases r0) auto
    from dir [of res rl rm] Dir.prems Some r0
    show ?thesis by (auto simp: item_step_def simp del: synchronize_folders.simps)
  next
    case None
    from dir [of "[]" True True] obtain res'' lg where
      run: "synchronize_folders md5 sip rip True (Some (Dir ses sl sm)) (Some (Dir [] True True))
              = (Inr True, Some (Dir res'' True True), lg)"
      and post: "wf_node (Dir res'' True True)" "deletable (Dir res'' True True)"
        "covered (Dir ses sl sm) (Dir res'' True True)"
      by auto
    with None show ?thesis
      by (simp add: item_step_def sync_on_missing_replica
               del: synchronize_folders.simps wf_node.simps deletable.simps covered.simps)
  qed
qed

lemma covered_paths: "covered s r \<Longrightarrow> entry_at s p = None \<Longrightarrow> entry_at r p = None"
proof (induction s arbitrary: r p)
  case (File c rd w flt)
  then obtain c' rd' w' flt' where "r = File c' rd' w' flt'" by (cases r) auto
  with File show ?case by (cases p) auto
next
  case (Dir ses sl sm)
  then obtain res rl rm where r: "r = Dir res rl rm" by (cases r) auto
  from Dir.prems(2) obtain x q where p: "p = x # q" by (cases p) auto
  show ?case
  proof (cases "map_of res x")
    case None
    with p r show ?thesis by simp
  next
    case (Some r0)
    then have "(x, r0) \<in> set res" by (rule map_of_SomeD)
    with Dir.prems(1) r obtain c where c: "map_of ses x = Some c" "covered c r0"
      by (auto split: option.splits)
    then have mem: "(x, c) \<in> set ses" by (auto dest: map_of_SomeD)
    from Dir.prems(2) p c have "entry_at c q = None" by simp
    with Dir.IH [of "(x, c)" c r0 q] mem c have "entry_at r0 q = None" by simp
    with Some p r show ?thesis by simp
  qed
qed

lemma sync_prunes:
  assumes "wf_node s" "listable_tree s" "wf_node r" "deletable r" "same_kinds s r"
    and "isdir (Some s)"
  shows "\<exists>r' lg. synchronize_folders md5 sp rp ok (Some s) (Some r) = (Inr True, Some r', lg)
           \<and> covered s r'"
proof -
  from assms(6) obtain ses sl sm where s: "s = Dir ses sl sm" by (cases s) auto
  with assms(5) obtain res rl rm where r: "r = Dir res rl rm" by (cases r) auto
  have IH: "\<exists>r' lg. item_step md5 sip rip True item c rep = (None, r', lg)
          \<and> (case r' of None \<Rightarrow> True | Some r1 \<Rightarrow> wf_node r1 \<and> deletable r1 \<and> covered c r1)"
    if "(n, c) \<in> set ses" "wf_node c" "listable_tree c"
      "case rep of None \<Rightarrow> True | Some r \<Rightarrow> wf_node r \<and> deletable r \<and> same_kinds c r"
    for n c sip rip item rep
    using that(2-4) by (rule item_prunes)
  have "\<exists>res'' lg. synchronize_folders md5 sp rp ok (Some (Dir ses sl sm)) (Some (Dir res rl rm))
              = (Inr True, Some (Dir res'' rl rm), lg)
           \<and> wf_node (Dir res'' rl rm) \<and> deletable (Dir res'' rl rm)
           \<and> covered (Dir ses sl sm) (Dir res'' rl rm)"
    using IH assms(1-5) [unfolded s r] by (rule item_prunes_dir)
  with s r show ?thesis by blast
qed

section \<open>The claims\<close>


text \<open>
  C1 (convergence), as amended. When no operation of the pass raises (the source can be
  listed and read, the replica can be listed, read, written and changed), no path is a
  file on one side and a directory on the other, and files at one path with the same
  fingerprint have the same bytes, then after a call of \<open>synchronize_folders\<close> that
  returns true the replica has exactly the relative paths of the source, each with the
  same kind and, for a file, the same bytes.
\<close>

theorem convergence_without_conflicts:
  assumes "wf_node s" and "readable_tree s"
    and "case rep of None \<Rightarrow> True
         | Some r \<Rightarrow> wf_node r \<and> replica_ok r \<and> same_kinds s r \<and> collision_free md5 s r"
    and "synchronize_folders md5 sp rp parent_ok (Some s) rep = (Inr True, rep', lg)"
  shows "\<exists>r'. rep' = Some r' \<and> (\<forall>p. entry_at r' p = entry_at s p)"
proof -
  from sync_True_D [OF assms(4)] have d: "isdir (Some s)" and ok: "rep = None \<longrightarrow> parent_ok"
    by auto
  from assms(1-3) have pre: "pre_ok s rep" by (auto simp: pre_ok_def split: option.splits)
  from sync_converges [OF pre d ok, of md5 sp rp] assms(4) obtain r' where
    r': "rep' = Some r'" and post: "post_ok md5 s rep r'"
    by auto
  from assms(3) have "case rep of None \<Rightarrow> True | Some r \<Rightarrow> collision_free md5 s r"
    by (auto split: option.splits)
  with post have "mirrors s r'" by (simp add: post_ok_def)
  then have "\<forall>p. entry_at r' p = entry_at s p" by (simp add: mirrors_entry_at)
  with r' show ?thesis by simp
qed

text \<open>The end-to-end scenario satisfies the hypotheses, and the pass gives the expected replica.\<close>

theorem convergence_without_conflicts_witness:
  "wf_node example_source \<and> readable_tree example_source \<and> wf_node example_replica \<and>
   replica_ok example_replica \<and> same_kinds example_source example_replica \<and>
   collision_free example_digest example_source example_replica \<and>
   synchronize_folders example_digest [''source''] [''replica''] True
       (Some example_source) (Some example_replica) =
     (Inr True,
      Some (Dir [(''a.txt'', File [104, 105] True True None),
                 (''sub'', Dir [(''b.txt'', File [98, 121, 101] True True None)] True True)]
              True True),
      [(INFO, Synchronizing_file [''replica'', ''a.txt'']),
       (INFO, Synchronizing_folder [''replica'', ''sub'']),
       (INFO, Synchronizing_file [''replica'', ''sub'', ''b.txt'']),
       (INFO, Deleting_file [''replica'', ''c.txt''])]) \<and>
   entry_at (Dir [(''a.txt'', File [104, 105] True True None),
                  (''sub'', Dir [(''b.txt'', File [98, 121, 101] True True None)] True True)]
               True True) [''sub'', ''b.txt'']
     = entry_at example_source [''sub'', ''b.txt'']"
proof -
  have h1: "wf_node example_source" by code_simp
  have h2: "readable_tree example_source" by code_simp
  have h3: "wf_node example_replica \<and> replica_ok example_replica \<and>
            same_kinds example_source example_replica \<and>
            collision_free example_digest example_source example_replica"
    by code_simp
  then have h3': "case Some example_replica of None \<Rightarrow> True
         | Some r \<Rightarrow> wf_node r \<and> replica_ok r \<and> same_kinds example_source r \<and>
             collision_free example_digest example_source r"
    by simp
  have run: "synchronize_folders example_digest [''source''] [''replica''] True
       (Some example_source) (Some example_replica) =
     (Inr True,
      Some (Dir [(''a.txt'', File [104, 105] True True None),
                 (''sub'', Dir [(''b.txt'', File [98, 121, 101] True True None)] True True)]
              True True),
      [(INFO, Synchronizing_file [''replica'', ''a.txt'']),
       (INFO, Synchronizing_folder [''replica'', ''sub'']),
       (INFO, Synchronizing_file [''replica'', ''sub'', ''b.txt'']),
       (INFO, Deleting_file [''replica'', ''c.txt''])])"
    by code_simp
  from convergence_without_conflicts [OF h1 h2 h3' run]
  have "entry_at (Dir [(''a.txt'', File [104, 105] True True None),
                  (''sub'', Dir [(''b.txt'', File [98, 121, 101] True True None)] True True)]
               True True) [''sub'', ''b.txt'']
     = entry_at example_source [''sub'', ''b.txt'']"
    by blast
  with h1 h2 h3 run show ?thesis by blast
qed

text \<open>
  C1 as stated fails: the source holds the directory \<^verbatim>\<open>d\<close>, the replica a file
  \<^verbatim>\<open>d\<close>. The recursive call returns false at its fourth check, its value is dropped,
  the pass returns true and \<^verbatim>\<open>d\<close> is still a file.
\<close>

theorem convergence_counterexample:
  "synchronize_folders example_digest [''source''] [''replica''] True
       (Some (Dir [(''d'', Dir [] True True)] True True))
       (Some (Dir [(''d'', File [1] True True None)] True True)) =
     (Inr True, Some (Dir [(''d'', File [1] True True None)] True True),
      [(ERROR, Replica_folder_path_is_not_a_folder)]) \<and>
   entry_at (Dir [(''d'', File [1] True True None)] True True) [''d'']
     \<noteq> entry_at (Dir [(''d'', Dir [] True True)] True True) [''d'']"
  by code_simp

text \<open>
  C3 (the hasher). For a path that cannot be read to its end (nothing there, a directory,
  a file that may not be opened, a file with a faulty byte) \<open>calculate_file_hash\<close>
  gives no fingerprint, its error result, and logs the error; no exception leaves it.
  For a file that can be read it gives the 32 hexadecimal digits of the digest of all
  its bytes.
\<close>

theorem calculate_file_hash_contract:
  "(\<not> can_read x \<longrightarrow>
      calculate_file_hash md5 filepath x = (None, [(ERROR, Failed_to_open_file filepath)])) \<and>
   (\<forall>f. x = Some f \<and> can_read x \<longrightarrow>
      calculate_file_hash md5 filepath x = (Some (hexdigest (md5 (content f))), []) \<and>
      length (hexdigest (md5 (content f))) = 32)"
  by (auto simp: calculate_file_hash_eq length_hexdigest)

theorem calculate_file_hash_contract_witness:
  "\<not> can_read (Some (File [1, 2, 3] True True (Some 1))) \<and>
   calculate_file_hash example_digest [''source'', ''a''] (Some (File [1, 2, 3] True True (Some 1)))
     = (None, [(ERROR, Failed_to_open_file [''source'', ''a''])]) \<and>
   can_read (Some (File [1, 2, 3] True True None)) \<and>
   calculate_file_hash example_digest [''source'', ''a''] (Some (File [1, 2, 3] True True None))
     = (Some (hexdigest (example_digest [1, 2, 3])), []) \<and>
   length (hexdigest (example_digest [1, 2, 3])) = 32"
  using calculate_file_hash_contract
          [of "Some (File [1, 2, 3] True True (Some 1))" example_digest "[''source'', ''a'']"]
        calculate_file_hash_contract
          [of "Some (File [1, 2, 3] True True None)" example_digest "[''source'', ''a'']"]
  by simp

text \<open>
  C6 (idempotence), as amended. When no operation raises and no path is a file on one
  side and a directory on the other, and a first pass returned true, a second pass over
  the same source returns true, leaves the replica as the first pass left it, and logs
  nothing but one fingerprint match for every file of the source: no file is copied.
\<close>

theorem idempotence_without_conflicts:
  assumes "wf_node s" and "readable_tree s"
    and "case rep of None \<Rightarrow> True | Some r \<Rightarrow> wf_node r \<and> replica_ok r \<and> same_kinds s r"
    and "synchronize_folders md5 sp rp parent_ok (Some s) rep = (Inr True, rep1, lg1)"
  shows "synchronize_folders md5 sp rp parent_ok (Some s) rep1 =
           (Inr True, rep1, map (\<lambda>n. (INFO, Hash_match n)) (file_names s))"
proof -
  from sync_True_D [OF assms(4)] have d: "isdir (Some s)" and ok: "rep = None \<longrightarrow> parent_ok"
    by auto
  from assms(1-3) have pre: "pre_ok s rep" by (auto simp: pre_ok_def split: option.splits)
  from sync_converges [OF pre d ok, of md5 sp rp] assms(4) obtain r1 where
    r1: "rep1 = Some r1" and post: "post_ok md5 s rep r1"
    by auto
  from post have "readable_tree r1" and ins: "in_sync md5 s r1"
    by (auto simp: post_ok_def intro: replica_ok_readable)
  with assms(1,2) have
    "item_step md5 sp rp parent_ok [] s (Some r1) =
       (None, Some r1, map (\<lambda>n. (INFO, Hash_match n))
                         (if isdir (Some s) then file_names s else [[]]))"
    by (intro item_noop)
  moreover obtain x r2 lg2 where
    raw: "synchronize_folders md5 sp rp parent_ok (Some s) (Some r1) = (x, r2, lg2)"
    by (cases "synchronize_folders md5 sp rp parent_ok (Some s) (Some r1)") auto
  ultimately obtain b where b: "x = Inr b" "r2 = Some r1"
    "lg2 = map (\<lambda>n. (INFO, Hash_match n)) (file_names s)"
    using d by (cases x) (auto simp: item_step_def simp del: synchronize_folders.simps)
  from d obtain ses sl sm where s: "s = Dir ses sl sm" by (cases s) auto
  with ins have "isdir (Some r1)" by (cases r1) auto
  then have "Some r1 = None \<and> parent_ok \<or> isdir (Some r1)" by simp
  from sync_dir_result [OF this, of md5 sp rp ses sl sm] raw s b have "b" by auto
  with raw b r1 show ?thesis by simp
qed

theorem idempotence_without_conflicts_witness:
  "wf_node example_source \<and> readable_tree example_source \<and> wf_node example_replica \<and>
   replica_ok example_replica \<and> same_kinds example_source example_replica \<and>
   fst (synchronize_folders example_digest [''source''] [''replica''] True
         (Some example_source) (Some example_replica)) = Inr True \<and>
   synchronize_folders example_digest [''source''] [''replica''] True
       (Some example_source) (Some example_result) =
     (Inr True, Some example_result,
      [(INFO, Hash_match ''a.txt''), (INFO, Hash_match ''b.txt'')])"
proof -
  have h1: "wf_node example_source" by code_simp
  have h2: "readable_tree example_source" by code_simp
  have h3: "wf_node example_replica \<and> replica_ok example_replica \<and>
            same_kinds example_source example_replica"
    by code_simp
  then have h3': "case Some example_replica of None \<Rightarrow> True
         | Some r \<Rightarrow> wf_node r \<and> replica_ok r \<and> same_kinds example_source r"
    by simp
  have run: "synchronize_folders example_digest [''source''] [''replica''] True
       (Some example_source) (Some example_replica) =
     (Inr True, Some example_result,
      [(INFO, Synchronizing_file [''replica'', ''a.txt'']),
       (INFO, Synchronizing_folder [''replica'', ''sub'']),
       (INFO, Synchronizing_file [''replica'', ''sub'', ''b.txt'']),
       (INFO, Deleting_file [''replica'', ''c.txt''])])"
    by code_simp
  have names: "map (\<lambda>n. (INFO, Hash_match n)) (file_names example_source)
                 = [(INFO, Hash_match ''a.txt''), (INFO, Hash_match ''b.txt'')]"
    by code_simp
  from idempotence_without_conflicts [OF h1 h2 h3' run] names
  have "synchronize_folders example_digest [''source''] [''replica''] True
       (Some example_source) (Some example_result) =
     (Inr True, Some example_result,
      [(INFO, Hash_match ''a.txt''), (INFO, Hash_match ''b.txt'')])"
    by simp
  with h1 h2 h3 run show ?thesis by simp
qed

text \<open>
  C6 as stated fails: the source holds the file \<^verbatim>\<open>d\<close>, the replica an empty directory
  \<^verbatim>\<open>d\<close>. The pass returns true and leaves the replica as it was, so a second pass is
  this same call: the file is not skipped on a fingerprint match, its copy is tried and
  fails.
\<close>

theorem idempotence_counterexample:
  "synchronize_folders example_digest [''source''] [''replica''] True
       (Some (Dir [(''d'', File [1] True True None)] True True))
       (Some (Dir [(''d'', Dir [] True True)] True True)) =
     (Inr True, Some (Dir [(''d'', Dir [] True True)] True True),
      [(ERROR, Failed_to_open_file [''replica'', ''d'']),
       (ERROR, Failed_to_synchronize [''source'', ''d''] [''replica'', ''d''])]) \<and>
   file_names (Dir [(''d'', File [1] True True None)] True True) = [''d''] \<and>
   (INFO, Hash_match ''d'') \<notin>
     set [(ERROR, Failed_to_open_file [''replica'', ''d'']),
          (ERROR, Failed_to_synchronize [''source'', ''d''] [''replica'', ''d''])]"
  by code_simp

text \<open>
  C5 (deletion), as amended. When every directory of the source can be listed, every
  directory of the replica can be listed and changed, and no path is a file on one side
  and a directory on the other, then every relative path that the replica has and the
  source has not is gone after a pass that returns true, whatever happens to the files
  of the source. An item all of whose directories may be listed and changed is deleted
  entirely by \<open>delete_item\<close>, from the bottom up: the log is \<open>deletion_log\<close>,
  children before their directory.
\<close>

theorem deletion_without_conflicts:
  assumes "wf_node s" and "listable_tree s"
    and "wf_node r" and "deletable r" and "same_kinds s r"
    and "synchronize_folders md5 sp rp parent_ok (Some s) (Some r) = (Inr True, rep', lg)"
  shows "(\<exists>r'. rep' = Some r' \<and>
            (\<forall>p. entry_at r p \<noteq> None \<and> entry_at s p = None \<longrightarrow> entry_at r' p = None)) \<and>
         (\<forall>itempath c. deletable c \<longrightarrow>
            delete_item itempath True c = (None, None, deletion_log itempath c))"
proof -
  from sync_True_D [OF assms(6)] have d: "isdir (Some s)" by auto
  from sync_prunes [OF assms(1-5) d, of md5 sp rp parent_ok] assms(6) obtain r' where
    r': "rep' = Some r'" and cov: "covered s r'"
    by auto
  from cov have "entry_at s p = None \<longrightarrow> entry_at r' p = None" for p
    using covered_paths by blast
  with r' show ?thesis by (simp add: delete_item_deletable)
qed

text \<open>
  A source whose only file may not be opened, over a replica that holds nothing but an
  orphan directory two levels deep: the copy fails, and the orphan is deleted from the
  bottom up all the same.
\<close>

theorem deletion_without_conflicts_witness:
  "wf_node (Dir [(''a.txt'', File [104, 105] False True None)] True True) \<and>
   listable_tree (Dir [(''a.txt'', File [104, 105] False True None)] True True) \<and>
   wf_node (Dir [(''old'', Dir [(''deep'', Dir [(''f'', File [1] True True None)] True True)]
                            True True)] True True) \<and>
   deletable (Dir [(''old'', Dir [(''deep'', Dir [(''f'', File [1] True True None)] True True)]
                            True True)] True True) \<and>
   same_kinds (Dir [(''a.txt'', File [104, 105] False True None)] True True)
     (Dir [(''old'', Dir [(''deep'', Dir [(''f'', File [1] True True None)] True True)]
                            True True)] True True) \<and>
   synchronize_folders example_digest [''source''] [''replica''] True
     (Some (Dir [(''a.txt'', File [104, 105] False True None)] True True))
     (Some (Dir [(''old'', Dir [(''deep'', Dir [(''f'', File [1] True True None)] True True)]
                            True True)] True True)) =
     (Inr True, Some (Dir [] True True),
      [(ERROR, Failed_to_synchronize [''source'', ''a.txt''] [''replica'', ''a.txt'']),
       (INFO, Deleting_file [''replica'', ''old'', ''deep'', ''f'']),
       (INFO, Deleting_folder [''replica'', ''old'', ''deep'']),
       (INFO, Deleting_folder [''replica'', ''old''])]) \<and>
   entry_at (Dir [(''old'', Dir [(''deep'', Dir [(''f'', File [1] True True None)] True True)]
                            True True)] True True) [''old'', ''deep''] = Some A_directory \<and>
   entry_at (Dir [(''a.txt'', File [104, 105] False True None)] True True) [''old'', ''deep'']
     = None \<and>
   entry_at (Dir [] True True) [''old'', ''deep''] = None \<and>
   deletable (Dir [(''deep'', Dir [(''f'', File [1] True True None)] True True)] True True) \<and>
   delete_item [''replica'', ''old''] True
       (Dir [(''deep'', Dir [(''f'', File [1] True True None)] True True)] True True) =
     (None, None,
      [(INFO, Deleting_file [''replica'', ''old'', ''deep'', ''f'']),
       (INFO, Deleting_folder [''replica'', ''old'', ''deep'']),
       (INFO, Deleting_folder [''replica'', ''old''])])"
proof -
  let ?s = "Dir [(''a.txt'', File [104, 105] False True None)] True True"
  let ?r = "Dir [(''old'', Dir [(''deep'', Dir [(''f'', File [1] True True None)] True True)]
                            True True)] True True"
  let ?o = "Dir [(''deep'', Dir [(''f'', File [1] True True None)] True True)] True True"
  have h1: "wf_node ?s" by code_simp
  have h2: "listable_tree ?s" by code_simp
  have h3: "wf_node ?r" by code_simp
  have h4: "deletable ?r" by code_simp
  have h5: "same_kinds ?s ?r" by code_simp
  have run: "synchronize_folders example_digest [''source''] [''replica''] True
               (Some ?s) (Some ?r) =
     (Inr True, Some (Dir [] True True),
      [(ERROR, Failed_to_synchronize [''source'', ''a.txt''] [''replica'', ''a.txt'']),
       (INFO, Deleting_file [''replica'', ''old'', ''deep'', ''f'']),
       (INFO, Deleting_folder [''replica'', ''old'', ''deep'']),
       (INFO, Deleting_folder [''replica'', ''old''])])"
    by code_simp
  have e1: "entry_at ?r [''old'', ''deep''] = Some A_directory" by code_simp
  have e2: "entry_at ?s [''old'', ''deep''] = None" by code_simp
  have dl: "deletable ?o" by code_simp
  have lg: "deletion_log [''replica'', ''old''] ?o =
     [(INFO, Deleting_file [''replica'', ''old'', ''deep'', ''f'']),
       (INFO, Deleting_folder [''replica'', ''old'', ''deep'']),
       (INFO, Deleting_folder [''replica'', ''old''])]"
    by code_simp
  note inst = deletion_without_conflicts [OF h1 h2 h3 h4 h5 run]
  from inst e1 e2 have e3: "entry_at (Dir [] True True) [''old'', ''deep''] = None" by auto
  from inst dl lg have
    "delete_item [''replica'', ''old''] True ?o =
     (None, None,
      [(INFO, Deleting_file [''replica'', ''old'', ''deep'', ''f'']),
       (INFO, Deleting_folder [''replica'', ''old'', ''deep'']),
       (INFO, Deleting_folder [''replica'', ''old''])])"
    by auto
  with h1 h2 h3 h4 h5 run e1 e2 e3 dl show ?thesis by blast
qed

text \<open>
  C5 as stated fails: the source holds the file \<^verbatim>\<open>d\<close>, the replica the directory
  \<^verbatim>\<open>d\<close> with the file \<^verbatim>\<open>d/x\<close> in it. The second loop keeps \<^verbatim>\<open>d\<close> because the
  source has that name, the copy onto a directory fails, and \<^verbatim>\<open>d/x\<close>, which the
  source has not, is still there after the pass.
\<close>

theorem deletion_counterexample:
  "synchronize_folders example_digest [''source''] [''replica''] True
       (Some (Dir [(''d'', File [1] True True None)] True True))
       (Some (Dir [(''d'', Dir [(''x'', File [2] True True None)] True True)] True True)) =
     (Inr True, Some (Dir [(''d'', Dir [(''x'', File [2] True True None)] True True)] True True),
      [(ERROR, Failed_to_open_file [''replica'', ''d'']),
       (ERROR, Failed_to_synchronize [''source'', ''d''] [''replica'', ''d''])]) \<and>
   entry_at (Dir [(''d'', File [1] True True None)] True True) [''d'', ''x''] = None \<and>
   entry_at (Dir [(''d'', Dir [(''x'', File [2] True True None)] True True)] True True)
     [''d'', ''x''] = Some (A_file [2])"
  by code_simp

text \<open>
  C7 (the scheduler stops). In a run of \<open>start_sync\<close>, a call of \<open>synchronize_folders\<close>
  that returned false is the last event: no call and no sleep follows it, the loop has
  been left, and letting the scheduler run longer changes nothing.
\<close>

theorem no_tick_after_false:
  assumes "start_sync fuel md5 env interval_arg sp rp w = (st, evs, w', lg)"
    and "Called (Inr False) \<in> set evs"
  shows "st = Stopped \<and>
         (\<exists>pre. evs = pre @ [Called (Inr False)] \<and> Called (Inr False) \<notin> set pre) \<and>
         (\<forall>j. start_sync (fuel + j) md5 env interval_arg sp rp w = (st, evs, w', lg))"
proof -
  from assms(2) have "evs \<noteq> []" by auto
  from start_sync_run [OF assms(1) this] obtain val secs unit lg' where
    cfg: "interval_arg \<noteq> []" "py_int (butlast interval_arg) = Inr val"
      "interval_to_seconds (lower (last interval_arg)) = Some secs"
      "conversion (last interval_arg) = Some unit"
    and loop: "sync_loop fuel md5 env sp rp (val * secs) 0 w = (st, evs, w', lg')"
    and lg: "lg = (INFO, Sync_interval_set val unit) # lg'"
    by blast
  from sync_loop_false_last [OF loop assms(2)] have
    st: "st = Stopped"
    and last: "\<exists>pre. evs = pre @ [Called (Inr False)] \<and> Called (Inr False) \<notin> set pre"
    by auto
  have "start_sync (fuel + j) md5 env interval_arg sp rp w = (st, evs, w', lg)" for j
  proof -
    from loop st have "sync_loop (fuel + j) md5 env sp rp (val * secs) 0 w = (st, evs, w', lg')"
      using sync_loop_stopped_stable by blast
    with cfg lg show ?thesis by (simp add: start_sync_of_loop)
  qed
  with st last show ?thesis by blast
qed

text \<open>
  The source is removed during the second sleep: the third pass returns false and is
  the last event, however long the scheduler may run.
\<close>

theorem no_tick_after_false_witness:
  "start_sync 5 example_digest
     (\<lambda>k w. if k = 1 then w\<lparr>source_tree := None\<rparr> else w) ''2s'' [''source''] [''replica'']
     \<lparr>source_tree = Some (Dir [] True True), replica_tree = None, replica_parent_ok = True\<rparr> =
     (Stopped,
      [Called (Inr True), Slept 2, Called (Inr True), Slept 2, Called (Inr False)],
      \<lparr>source_tree = None, replica_tree = Some (Dir [] True True), replica_parent_ok = True\<rparr>,
      [(INFO, Sync_interval_set 2 ''seconds''),
       (INFO, Synchronizing_folders [''source''] [''replica'']),
       (INFO, Synchronizing_folder [''replica'']),
       (INFO, Synchronizing_folders [''source''] [''replica'']),
       (INFO, Synchronizing_folders [''source''] [''replica'']),
       (ERROR, Source_folder_does_not_exist)]) \<and>
   start_sync (5 + 100) example_digest
     (\<lambda>k w. if k = 1 then w\<lparr>source_tree := None\<rparr> else w) ''2s'' [''source''] [''replica'']
     \<lparr>source_tree = Some (Dir [] True True), replica_tree = None, replica_parent_ok = True\<rparr> =
     (Stopped,
      [Called (Inr True), Slept 2, Called (Inr True), Slept 2, Called (Inr False)],
      \<lparr>source_tree = None, replica_tree = Some (Dir [] True True), replica_parent_ok = True\<rparr>,
      [(INFO, Sync_interval_set 2 ''seconds''),
       (INFO, Synchronizing_folders [''source''] [''replica'']),
       (INFO, Synchronizing_folder [''replica'']),
       (INFO, Synchronizing_folders [''source''] [''replica'']),
       (INFO, Synchronizing_folders [''source''] [''replica'']),
       (ERROR, Source_folder_does_not_exist)])"
proof -
  have run: "start_sync 5 example_digest
     (\<lambda>k w. if k = 1 then w\<lparr>source_tree := None\<rparr> else w) ''2s'' [''source''] [''replica'']
     \<lparr>source_tree = Some (Dir [] True True), replica_tree = None, replica_parent_ok = True\<rparr> =
     (Stopped,
      [Called (Inr True), Slept 2, Called (Inr True), Slept 2, Called (Inr False)],
      \<lparr>source_tree = None, replica_tree = Some (Dir [] True True), replica_parent_ok = True\<rparr>,
      [(INFO, Sync_interval_set 2 ''seconds''),
       (INFO, Synchronizing_folders [''source''] [''replica'']),
       (INFO, Synchronizing_folder [''replica'']),
       (INFO, Synchronizing_folders [''source''] [''replica'']),
       (INFO, Synchronizing_folders [''source''] [''replica'']),
       (ERROR, Source_folder_does_not_exist)])"
    by code_simp
  have mem: "Called (Inr False) \<in>
      set [Called (Inr True), Slept 2, Called (Inr True), Slept 2, Called (Inr False)]"
    by simp
  from no_tick_after_false [OF run mem] run show ?thesis by blast
qed

text \<open>
  C2 (the unit letter in upper case). \<open>read_commands\<close> lets \<^verbatim>\<open>5M\<close> through, and
  \<open>start_sync\<close> looks up the seconds under the lowered letter but the unit's name under
  the letter as given: the second lookup raises \<^verbatim>\<open>KeyError\<close> before the first pass.
\<close>

theorem start_sync_uppercase_unit:
  "sync_interval_pattern ''5M'' \<and>
   fst (read_commands [''main.py'', ''source'', ''replica'', ''5M'', ''sync.log'']) =
     Some \<lparr>source = ''source'', replica = ''replica'', sync_interval = ''5M'',
           log_file_path = ''sync.log''\<rparr> \<and>
   interval_to_seconds (lower (CHR ''M'')) = Some 60 \<and>
   conversion (CHR ''M'') = None \<and>
   start_sync 3 example_digest idle ''5M'' [''source''] [''replica'']
     \<lparr>source_tree = Some example_source, replica_tree = None, replica_parent_ok = True\<rparr> =
     (Crashed KeyError, [],
      \<lparr>source_tree = Some example_source, replica_tree = None, replica_parent_ok = True\<rparr>, [])"
  by code_simp

text \<open>
  C9 (the replica is created before the type of the source is checked), as amended.
  On a source that is a file and a replica path with nothing at it,
  \<open>synchronize_folders\<close> returns false in every case. Where \<^verbatim>\<open>os.mkdir\<close> succeeds
  the empty replica directory has been created by then, so the error return has
  changed the file system; where \<^verbatim>\<open>os.mkdir\<close> raises, nothing has been created and
  the failure to create the replica is what is logged.
\<close>

theorem replica_created_before_source_check:
  "synchronize_folders md5 sp rp parent_ok (Some (File c r w flt)) None =
     (if parent_ok
      then (Inr False, Some (Dir [] True True),
            [(INFO, Synchronizing_folder rp), (ERROR, Source_folder_path_is_not_a_folder)])
      else (Inr False, None, [(ERROR, Failed_to_create_replica_folder)]))"
  by (simp add: ensure_replica_def path_exists_def)

theorem replica_created_before_source_check_witness:
  "path_exists (Some (File [104, 105] True True None)) \<and>
   \<not> isdir (Some (File [104, 105] True True None)) \<and> \<not> path_exists None \<and>
   synchronize_folders example_digest [''source''] [''replica''] True
       (Some (File [104, 105] True True None)) None =
     (Inr False, Some (Dir [] True True),
      [(INFO, Synchronizing_folder [''replica'']), (ERROR, Source_folder_path_is_not_a_folder)])"
  using replica_created_before_source_check
          [of example_digest "[''source'']" "[''replica'']" True "[104, 105]" True True None]
  by (simp add: path_exists_def)

text \<open>
  C9 as stated fails: the source is a file, nothing is at the replica path, and the
  directory that would hold the replica lets no entry be created. \<^verbatim>\<open>os.mkdir\<close> raises,
  the handler of line 151 logs and returns false, and no replica directory exists
  afterwards.
\<close>

theorem replica_not_created_counterexample:
  "path_exists (Some (File [104, 105] True True None)) \<and>
   \<not> isdir (Some (File [104, 105] True True None)) \<and> \<not> path_exists None \<and>
   synchronize_folders example_digest [''source''] [''replica''] False
       (Some (File [104, 105] True True None)) None =
     (Inr False, None, [(ERROR, Failed_to_create_replica_folder)])"
  by code_simp

text \<open>
  C10 (the result depends on the four checks at the root only). The source holds a
  directory \<^verbatim>\<open>d\<close> that may not be listed. All four checks at the root pass, the
  recursive call for \<^verbatim>\<open>d\<close> creates the replica directory and then raises at
  \<^verbatim>\<open>os.listdir\<close>, which no handler catches: the root call does not return true, it
  raises.
\<close>

theorem unlistable_subdirectory_raises:
  "path_exists (Some (Dir [(''d'', Dir [] False True)] True True)) \<and>
   isdir (Some (Dir [(''d'', Dir [] False True)] True True)) \<and>
   path_exists (Some (Dir [] True True)) \<and> isdir (Some (Dir [] True True)) \<and>
   synchronize_folders example_digest [''source''] [''replica''] True
       (Some (Dir [(''d'', Dir [] False True)] True True)) (Some (Dir [] True True)) =
     (Inl OSError, Some (Dir [(''d'', Dir [] True True)] True True),
      [(INFO, Synchronizing_folder [''replica'', ''d''])])"
  by code_simp

text \<open>
  C4 (partial failure isolation). A directory level of the source that can be listed,
  over a replica directory that can be listed and changed; one file \<open>bad\<close> of the level
  raises during hashing or copying; for every other entry of the level nothing raises,
  the kinds agree and equal fingerprints mean equal bytes. Then the pass returns true,
  an ERROR record for \<open>bad\<close> is in the log, and every other entry is found in the
  replica with the same paths, kinds and bytes as in the source.
\<close>

theorem partial_failure_isolation:
  assumes "distinct (map fst ses)" and "distinct (map fst res)"
    and "(bad, File c r w flt) \<in> set ses"
    and "hashing_fails (File c r w flt) (map_of res bad) \<or>
         copying_fails md5 True (File c r w flt) (map_of res bad)"
    and "\<forall>(n, s) \<in> set ses. n \<noteq> bad \<longrightarrow>
           wf_node s \<and> readable_tree s \<and>
           (case map_of res n of
              None \<Rightarrow> True
            | Some x \<Rightarrow> wf_node x \<and> replica_ok x \<and> same_kinds s x \<and> collision_free md5 s x)"
    and "\<forall>(n, x) \<in> set res. map_of ses n = None \<longrightarrow> deletable x"
  shows "\<exists>res' lg.
           synchronize_folders md5 sp rp parent_ok (Some (Dir ses True sm)) (Some (Dir res True True))
             = (Inr True, Some (Dir res' True True), lg) \<and>
           ((ERROR, Failed_to_open_file (path_join sp bad)) \<in> set lg \<or>
            (ERROR, Failed_to_open_file (path_join rp bad)) \<in> set lg \<or>
            (ERROR, Failed_to_synchronize (path_join sp bad) (path_join rp bad)) \<in> set lg) \<and>
           (\<forall>(n, s) \<in> set ses. n \<noteq> bad \<longrightarrow>
              (\<exists>x. map_of res' n = Some x \<and> (\<forall>p. entry_at x p = entry_at s p)))"
proof -
  have others: "\<forall>(n, s) \<in> set ses. n \<noteq> bad \<longrightarrow> pre_ok s (map_of res n)"
    using assms(5) by (auto simp: pre_ok_def split: option.splits)
  have nd: "\<not> isdir (Some (File c r w flt))" by simp
  from level_with_special [OF assms(1,2,3) nd others assms(6), of md5 sp rp parent_ok sm]
  obtain res' lg where
    run: "synchronize_folders md5 sp rp parent_ok (Some (Dir ses True sm)) (Some (Dir res True True))
            = (Inr True, Some (Dir res' True True), lg)"
    and sub: "set (snd (sync_file md5 (path_join sp bad) (path_join rp bad) bad True
                          (File c r w flt) (map_of res bad))) \<subseteq> set lg"
    and rest: "\<forall>(n, s) \<in> set ses. n \<noteq> bad \<longrightarrow>
               (\<exists>r'. map_of res' n = Some r' \<and> post_ok md5 s (map_of res n) r')"
    by blast
  from sync_file_error_logged [OF assms(4), of "path_join sp bad" "path_join rp bad" bad] sub
  have err: "(ERROR, Failed_to_open_file (path_join sp bad)) \<in> set lg \<or>
            (ERROR, Failed_to_open_file (path_join rp bad)) \<in> set lg \<or>
            (ERROR, Failed_to_synchronize (path_join sp bad) (path_join rp bad)) \<in> set lg"
    by blast
  have "\<forall>(n, s) \<in> set ses. n \<noteq> bad \<longrightarrow>
              (\<exists>x. map_of res' n = Some x \<and> (\<forall>p. entry_at x p = entry_at s p))"
  proof (clarify)
    fix n s assume mem: "(n, s) \<in> set ses" and ne: "n \<noteq> bad"
    with rest obtain r' where r': "map_of res' n = Some r'" "post_ok md5 s (map_of res n) r'"
      by blast
    from assms(5) mem ne
    have "case map_of res n of None \<Rightarrow> True | Some x \<Rightarrow> collision_free md5 s x"
      by (auto split: option.splits)
    with r'(2) have "mirrors s r'" by (simp add: post_ok_def)
    then have "\<forall>p. entry_at r' p = entry_at s p" by (simp add: mirrors_entry_at)
    with r'(1) show "\<exists>x. map_of res' n = Some x \<and> (\<forall>p. entry_at x p = entry_at s p)" by blast
  qed
  with run err show ?thesis by blast
qed

text \<open>
  Three files, the first of which may not be opened: the other two reach the replica,
  the orphan is deleted, the failure is logged and the pass returns true.
\<close>

theorem partial_failure_isolation_witness:
  "synchronize_folders example_digest [''source''] [''replica''] True
     (Some (Dir [(''a'', File [1, 2] False True None), (''b'', File [3] True True None),
                 (''c'', File [4, 5, 6] True True None)] True True))
     (Some (Dir [(''c'', File [9] True True None), (''z'', File [] True True None)] True True)) =
     (Inr True,
      Some (Dir [(''c'', File [4, 5, 6] True True None), (''b'', File [3] True True None)]
              True True),
      [(ERROR, Failed_to_synchronize [''source'', ''a''] [''replica'', ''a'']),
       (INFO, Synchronizing_file [''replica'', ''b'']),
       (INFO, Synchronizing_file [''replica'', ''c'']),
       (INFO, Deleting_file [''replica'', ''z''])]) \<and>
   copying_fails example_digest True (File [1, 2] False True None)
     (map_of [(''c'', File [9] True True None), (''z'', File [] True True None)] ''a'') \<and>
   entry_at (File [3] True True None) [] = Some (A_file [3])"
proof -
  let ?ses = "[(''a'', File [1, 2] False True None), (''b'', File [3] True True None),
               (''c'', File [4, 5, 6] True True None)]"
  let ?res = "[(''c'', File [9] True True None), (''z'', File [] True True None)]"
  have h1: "distinct (map fst ?ses)" by code_simp
  have h2: "distinct (map fst ?res)" by code_simp
  have h3: "(''a'', File [1, 2] False True None) \<in> set ?ses" by simp
  have cf: "copying_fails example_digest True (File [1, 2] False True None) (map_of ?res ''a'')"
    by code_simp
  then have h4: "hashing_fails (File [1, 2] False True None) (map_of ?res ''a'') \<or>
         copying_fails example_digest True (File [1, 2] False True None) (map_of ?res ''a'')"
    by simp
  have h5: "\<forall>(n, s) \<in> set ?ses. n \<noteq> ''a'' \<longrightarrow>
           wf_node s \<and> readable_tree s \<and>
           (case map_of ?res n of
              None \<Rightarrow> True
            | Some x \<Rightarrow> wf_node x \<and> replica_ok x \<and> same_kinds s x \<and>
                collision_free example_digest s x)"
    by code_simp
  have h6: "\<forall>(n, x) \<in> set ?res. map_of ?ses n = None \<longrightarrow> deletable x" by code_simp
  have run: "synchronize_folders example_digest [''source''] [''replica''] True
     (Some (Dir ?ses True True)) (Some (Dir ?res True True)) =
     (Inr True,
      Some (Dir [(''c'', File [4, 5, 6] True True None), (''b'', File [3] True True None)]
              True True),
      [(ERROR, Failed_to_synchronize [''source'', ''a''] [''replica'', ''a'']),
       (INFO, Synchronizing_file [''replica'', ''b'']),
       (INFO, Synchronizing_file [''replica'', ''c'']),
       (INFO, Deleting_file [''replica'', ''z''])])"
    by code_simp
  from partial_failure_isolation [OF h1 h2 h3 h4 h5 h6,
      of "[''source'']" "[''replica'']" True True]
  obtain res' lg where
    r: "synchronize_folders example_digest [''source''] [''replica''] True
          (Some (Dir ?ses True True)) (Some (Dir ?res True True))
        = (Inr True, Some (Dir res' True True), lg)"
    and b: "\<forall>(n, s) \<in> set ?ses. n \<noteq> ''a'' \<longrightarrow>
              (\<exists>x. map_of res' n = Some x \<and> (\<forall>p. entry_at x p = entry_at s p))"
    by blast
  from r run have "res' = [(''c'', File [4, 5, 6] True True None), (''b'', File [3] True True None)]"
    by simp
  with b have "entry_at (File [3] True True None) [] = entry_at (File [3] True True None) []"
    by simp
  then have "entry_at (File [3] True True None) [] = Some (A_file [3])" by simp
  with run cf show ?thesis by blast
qed

text \<open>
  C8 (two unreadable files count as a match). When neither the source file nor what is
  at the replica path can be read, the hasher gives no fingerprint for either, the two
  results are equal, and the file is logged as a match and left alone: no copy, no
  record that the item failed. A pass over a level with such a file, where nothing
  raises for the other entries, returns true and leaves the replica entry as it was.
\<close>

theorem unreadable_pair_counts_as_match:
  assumes "distinct (map fst ses)" and "distinct (map fst res)"
    and "(item, File c r w flt) \<in> set ses" and "map_of res item = Some x"
    and "\<not> can_read (Some (File c r w flt))" and "\<not> can_read (Some x)"
    and "\<forall>(n, s) \<in> set ses. n \<noteq> item \<longrightarrow>
           wf_node s \<and> readable_tree s \<and>
           (case map_of res n of
              None \<Rightarrow> True
            | Some y \<Rightarrow> wf_node y \<and> replica_ok y \<and> same_kinds s y)"
    and "\<forall>(n, y) \<in> set res. map_of ses n = None \<longrightarrow> deletable y"
  shows "fst (calculate_file_hash md5 (path_join sp item) (Some (File c r w flt))) = None \<and>
         fst (calculate_file_hash md5 (path_join rp item) (Some x)) = None \<and>
         sync_file md5 (path_join sp item) (path_join rp item) item True (File c r w flt) (Some x)
           = (Some x, [(ERROR, Failed_to_open_file (path_join sp item)),
                       (ERROR, Failed_to_open_file (path_join rp item)),
                       (INFO, Hash_match item)]) \<and>
         (\<exists>res' lg.
            synchronize_folders md5 sp rp parent_ok (Some (Dir ses True sm)) (Some (Dir res True True))
              = (Inr True, Some (Dir res' True True), lg) \<and>
            map_of res' item = Some x \<and> (INFO, Hash_match item) \<in> set lg)"
proof -
  have others: "\<forall>(n, s) \<in> set ses. n \<noteq> item \<longrightarrow> pre_ok s (map_of res n)"
    using assms(7) by (auto simp: pre_ok_def split: option.splits)
  have nd: "\<not> isdir (Some (File c r w flt))" by simp
  have sf: "sync_file md5 (path_join sp item) (path_join rp item) item True (File c r w flt) (Some x)
           = (Some x, [(ERROR, Failed_to_open_file (path_join sp item)),
                       (ERROR, Failed_to_open_file (path_join rp item)),
                       (INFO, Hash_match item)])"
    using assms(5,6) by (rule sync_file_both_unreadable)
  from level_with_special [OF assms(1,2,3) nd others assms(8), of md5 sp rp parent_ok sm]
    assms(4) sf
  have "\<exists>res' lg.
            synchronize_folders md5 sp rp parent_ok (Some (Dir ses True sm)) (Some (Dir res True True))
              = (Inr True, Some (Dir res' True True), lg) \<and>
            map_of res' item = Some x \<and> (INFO, Hash_match item) \<in> set lg"
    by auto
  moreover from assms(5,6) have
    "fst (calculate_file_hash md5 (path_join sp item) (Some (File c r w flt))) = None"
    "fst (calculate_file_hash md5 (path_join rp item) (Some x)) = None"
    by (simp_all add: calculate_file_hash_eq)
  ultimately show ?thesis using sf by blast
qed

theorem unreadable_pair_counts_as_match_witness:
  "\<not> can_read (Some (File [1, 2] False True None)) \<and>
   \<not> can_read (Some (File [7] False True None)) \<and>
   sync_file example_digest [''source'', ''a''] [''replica'', ''a''] ''a'' True
       (File [1, 2] False True None) (Some (File [7] False True None))
     = (Some (File [7] False True None),
        [(ERROR, Failed_to_open_file [''source'', ''a'']),
         (ERROR, Failed_to_open_file [''replica'', ''a'']),
         (INFO, Hash_match ''a'')]) \<and>
   synchronize_folders example_digest [''source''] [''replica''] True
     (Some (Dir [(''a'', File [1, 2] False True None), (''b'', File [3] True True None)] True True))
     (Some (Dir [(''a'', File [7] False True None)] True True)) =
     (Inr True,
      Some (Dir [(''a'', File [7] False True None), (''b'', File [3] True True None)] True True),
      [(ERROR, Failed_to_open_file [''source'', ''a'']),
       (ERROR, Failed_to_open_file [''replica'', ''a'']),
       (INFO, Hash_match ''a''),
       (INFO, Synchronizing_file [''replica'', ''b''])])"
proof -
  let ?ses = "[(''a'', File [1, 2] False True None), (''b'', File [3] True True None)]"
  let ?res = "[(''a'', File [7] False True None)]"
  have h1: "distinct (map fst ?ses)" by code_simp
  have h2: "distinct (map fst ?res)" by code_simp
  have h3: "(''a'', File [1, 2] False True None) \<in> set ?ses" by simp
  have h4: "map_of ?res ''a'' = Some (File [7] False True None)" by simp
  have h5: "\<not> can_read (Some (File [1, 2] False True None))" by simp
  have h6: "\<not> can_read (Some (File [7] False True None))" by simp
  have h7: "\<forall>(n, s) \<in> set ?ses. n \<noteq> ''a'' \<longrightarrow>
           wf_node s \<and> readable_tree s \<and>
           (case map_of ?res n of
              None \<Rightarrow> True
            | Some y \<Rightarrow> wf_node y \<and> replica_ok y \<and> same_kinds s y)"
    by code_simp
  have h8: "\<forall>(n, y) \<in> set ?res. map_of ?ses n = None \<longrightarrow> deletable y" by code_simp
  have run: "synchronize_folders example_digest [''source''] [''replica''] True
     (Some (Dir ?ses True True)) (Some (Dir ?res True True)) =
     (Inr True,
      Some (Dir [(''a'', File [7] False True None), (''b'', File [3] True True None)] True True),
      [(ERROR, Failed_to_open_file [''source'', ''a'']),
       (ERROR, Failed_to_open_file [''replica'', ''a'']),
       (INFO, Hash_match ''a''),
       (INFO, Synchronizing_file [''replica'', ''b''])])"
    by code_simp
  from unreadable_pair_counts_as_match [OF h1 h2 h3 h4 h5 h6 h7 h8,
      of example_digest "[''source'']" "[''replica'']" True True]
  have "sync_file example_digest [''source'', ''a''] [''replica'', ''a''] ''a'' True
       (File [1, 2] False True None) (Some (File [7] False True None))
     = (Some (File [7] False True None),
        [(ERROR, Failed_to_open_file [''source'', ''a'']),
         (ERROR, Failed_to_open_file [''replica'', ''a'']),
         (INFO, Hash_match ''a'')])"
    by (simp add: path_join_def)
  with h5 h6 run show ?thesis by blast
qed

end
